theory Spec2Isabelle
  imports Main
begin

section \<open>Post-processing of CalculiX OUTPUT=3D results (post.py)\<close>

text \<open>
  The script reads three text files named after one base name, copies the
  displacements of the original nodes to the nodes of the expanded elements,
  and writes a fourth file. Every function of the script is embedded as a HOL
  function of the same name. Exceptions are values of the type \<open>py_error\<close>;
  a function that can raise returns \<open>py_error + 'a\<close>, with \<open>Inl\<close> for the
  exception. Functions that touch the file system take the state of the world
  and return it.
\<close>

subsection \<open>Exceptions\<close>

text \<open>
  \<open>ValueError\<close> carries the message of the one exception the script raises
  itself. \<open>ConversionError\<close> is the \<open>ValueError\<close> that \<open>int()\<close> and \<open>float()\<close>
  raise on the token they were given, \<open>UnpackError\<close> the \<open>ValueError\<close> of
  unpacking a displacement that does not have three components.
\<close>

datatype py_error =
    FileNotFoundError string
  | IndexError
  | KeyError int
  | ValueError string
  | ConversionError string
  | UnpackError
  | SystemExit int

subsection \<open>Sequences\<close>

text \<open>
  Subscripting a tuple or list, \<open>xs[i]\<close>: a negative index counts from the end,
  and an index outside \<open>-len(xs) .. len(xs) - 1\<close> raises \<open>IndexError\<close>.
\<close>

definition getitem :: "'a list \<Rightarrow> int \<Rightarrow> py_error + 'a" where
  "getitem xs i =
     (if 0 \<le> i \<and> i < int (length xs) then Inr (xs ! nat i)
      else if - int (length xs) \<le> i \<and> i < 0 then Inr (xs ! nat (int (length xs) + i))
      else Inl IndexError)"

text \<open>
  A comprehension or loop whose body can raise: the elements are visited in
  order and the first exception ends the traversal.
\<close>

fun traverse :: "('a \<Rightarrow> py_error + 'b) \<Rightarrow> 'a list \<Rightarrow> py_error + 'b list" where
  "traverse f [] = Inr []"
| "traverse f (x # xs) =
     (case f x of
        Inl err \<Rightarrow> Inl err
      | Inr y \<Rightarrow> (case traverse f xs of Inl err \<Rightarrow> Inl err | Inr ys \<Rightarrow> Inr (y # ys)))"

subsection \<open>Expansion records\<close>

text \<open>
  The \<open>types.SimpleNamespace\<close> that \<open>read_expansion\<close> builds, with its three
  attributes. A displacement is whatever the original sequence holds: the
  propagation never looks inside it, so its type is a parameter.
\<close>

record expansion =
  element :: int
  orig :: "int list"
  new :: "int list"

subsection \<open>new_displacements\<close>

text \<open>The dictionary \<open>mapping\<close>, entry by entry as the source gives it.\<close>

definition mapping :: "(nat \<times> nat) list" where
  "mapping =
     [(0, 0), (1, 1), (2, 2), (3, 0), (4, 1), (5, 2), (6, 3), (7, 4),
      (8, 5), (9, 3), (10, 4), (11, 5), (12, 0), (13, 1), (14, 2)]"

text \<open>\<open>mapping[x]\<close>: a key that is not in the dictionary raises \<open>KeyError\<close>.\<close>

definition mapping_get :: "nat \<Rightarrow> py_error + nat" where
  "mapping_get x =
     (case map_of mapping x of None \<Rightarrow> Inl (KeyError (int x)) | Some m \<Rightarrow> Inr m)"

text \<open>
  The expression \<open>orig[org[mapping[x]]-1]\<close>, evaluated inside out: the table,
  then the record's original node id, then the displacement sequence.
\<close>

definition copied :: "'d list \<Rightarrow> int list \<Rightarrow> nat \<Rightarrow> py_error + 'd" where
  "copied orig_disp org x =
     (case mapping_get x of
        Inl err \<Rightarrow> Inl err
      | Inr m \<Rightarrow>
          (case getitem org (int m) of
             Inl err \<Rightarrow> Inl err
           | Inr k \<Rightarrow> getitem orig_disp (k - 1)))"

text \<open>
  The dictionary \<open>newdisp\<close> is an association list in insertion order, as a
  Python dictionary is; a key is inserted only when it is absent, so keys stay
  unique. The body of the inner loop, for one pair \<open>(x, n)\<close> of \<open>enumerate(new)\<close>:
\<close>

definition assign ::
  "'d list \<Rightarrow> int list \<Rightarrow> (int \<times> 'd) list \<Rightarrow> nat \<times> int \<Rightarrow> py_error + (int \<times> 'd) list" where
  "assign orig_disp org newdisp p =
     (case p of (x, n) \<Rightarrow>
        if n \<in> fst ` set newdisp then Inr newdisp
        else (case copied orig_disp org x of
                Inl err \<Rightarrow> Inl err
              | Inr d \<Rightarrow> Inr (newdisp @ [(n, d)])))"

text \<open>The inner loop, \<open>for x, n in enumerate(new)\<close>, over the pairs still to visit.\<close>

fun slots_loop ::
  "'d list \<Rightarrow> int list \<Rightarrow> (int \<times> 'd) list \<Rightarrow> (nat \<times> int) list \<Rightarrow> py_error + (int \<times> 'd) list" where
  "slots_loop orig_disp org newdisp [] = Inr newdisp"
| "slots_loop orig_disp org newdisp (p # ps) =
     (case assign orig_disp org newdisp p of
        Inl err \<Rightarrow> Inl err
      | Inr newdisp' \<Rightarrow> slots_loop orig_disp org newdisp' ps)"

text \<open>The outer loop, \<open>for e in expansion\<close>.\<close>

fun expansion_loop ::
  "'d list \<Rightarrow> (int \<times> 'd) list \<Rightarrow> expansion list \<Rightarrow> py_error + (int \<times> 'd) list" where
  "expansion_loop orig_disp newdisp [] = Inr newdisp"
| "expansion_loop orig_disp newdisp (e # es) =
     (case slots_loop orig_disp (orig e) newdisp (enumerate 0 (new e)) of
        Inl err \<Rightarrow> Inl err
      | Inr newdisp' \<Rightarrow> expansion_loop orig_disp newdisp' es)"

text \<open>\<open>newdisp[i]\<close> on the finished dictionary.\<close>

definition newdisp_get :: "(int \<times> 'd) list \<Rightarrow> int \<Rightarrow> py_error + 'd" where
  "newdisp_get newdisp i =
     (case map_of newdisp i of None \<Rightarrow> Inl (KeyError i) | Some d \<Rightarrow> Inr d)"

definition new_displacements ::
  "'d list \<Rightarrow> expansion list \<Rightarrow> py_error + (int \<times> 'd) list" where
  "new_displacements orig_disp expansion =
     (case expansion_loop orig_disp [] expansion of
        Inl err \<Rightarrow> Inl err
      | Inr newdisp \<Rightarrow>
          (let idx = sort (map fst newdisp)
           in traverse (\<lambda>i. case newdisp_get newdisp i of
                               Inl err \<Rightarrow> Inl err
                             | Inr d \<Rightarrow> Inr (i, d)) idx))"


subsection \<open>Text\<close>

text \<open>
  A \<open>string\<close> is the text of a file or a line as the text layer hands it to
  the script: decoded, and with every line ending already \<open>\n\<close>. A \<open>char\<close> is
  one character of that text; the model covers the characters below 256.
\<close>

definition nl :: char where
  "nl = CHR 0x0A"

text \<open>The characters \<open>str.isspace\<close> accepts, which \<open>strip()\<close> and \<open>split()\<close> use.\<close>

definition is_space :: "char \<Rightarrow> bool" where
  "is_space c \<longleftrightarrow>
     c \<in> set [CHR 0x09, CHR 0x0A, CHR 0x0B, CHR 0x0C, CHR 0x0D,
               CHR 0x1C, CHR 0x1D, CHR 0x1E, CHR 0x1F, CHR 0x20, CHR 0x85, CHR 0xA0]"

definition strip :: "string \<Rightarrow> string" where
  "strip s = rev (dropWhile is_space (rev (dropWhile is_space s)))"

text \<open>
  \<open>s.split()\<close>: the maximal runs of characters that are not white space. The
  first argument is the token being read.
\<close>

fun split_from :: "string \<Rightarrow> string \<Rightarrow> string list" where
  "split_from tok [] = (if tok = [] then [] else [tok])"
| "split_from tok (c # cs) =
     (if is_space c then (if tok = [] then split_from [] cs else tok # split_from [] cs)
      else split_from (tok @ [c]) cs)"

definition split :: "string \<Rightarrow> string list" where
  "split s = split_from [] s"

text \<open>\<open>s.startswith(p)\<close> and \<open>sub in s\<close>.\<close>

definition startswith :: "string \<Rightarrow> string \<Rightarrow> bool" where
  "startswith s p \<longleftrightarrow> take (length p) s = p"

fun contains :: "string \<Rightarrow> string \<Rightarrow> bool" where
  "contains sub [] \<longleftrightarrow> sub = []"
| "contains sub (c # cs) \<longleftrightarrow> startswith (c # cs) sub \<or> contains sub cs"

text \<open>
  \<open>readlines()\<close>: the text cut after every \<open>\n\<close>; each line keeps its
  terminator, and a last line without one is kept as it is. The first argument
  is the line being read.
\<close>

fun readlines_from :: "string \<Rightarrow> string \<Rightarrow> string list" where
  "readlines_from ln [] = (if ln = [] then [] else [ln])"
| "readlines_from ln (c # cs) =
     (if c = nl then (ln @ [c]) # readlines_from [] cs else readlines_from (ln @ [c]) cs)"

definition readlines :: "string \<Rightarrow> string list" where
  "readlines txt = readlines_from [] txt"

text \<open>
  A line that ends with its terminator and holds no other: what \<open>readlines\<close>
  returns for every line but a last one without terminator.
\<close>

definition terminated :: "string \<Rightarrow> bool" where
  "terminated ln \<longleftrightarrow> ln \<noteq> [] \<and> last ln = nl \<and> nl \<notin> set (butlast ln)"

text \<open>\<open>str(i)\<close> for an integer, and the format \<open>>10d\<close> of an f-string.\<close>

fun digits :: "nat \<Rightarrow> string" where
  "digits n =
     (if n < 10 then [''0123456789'' ! n] else digits (n div 10) @ [''0123456789'' ! (n mod 10)])"

definition str_int :: "int \<Rightarrow> string" where
  "str_int i = (if i < 0 then CHR ''-'' # digits (nat (- i)) else digits (nat i))"

definition rjust :: "nat \<Rightarrow> string \<Rightarrow> string" where
  "rjust width s = replicate (width - length s) CHR '' '' @ s"

text \<open>
  \<open>int(tok)\<close> and \<open>float(tok)\<close> are functions of the language, given here as
  parameters \<open>py_int\<close> and \<open>py_float\<close>: \<open>None\<close> where the conversion raises. The
  type of a floating-point number is a parameter as well.
\<close>

definition convert :: "(string \<Rightarrow> 'a option) \<Rightarrow> string \<Rightarrow> py_error + 'a" where
  "convert conv tok = (case conv tok of None \<Rightarrow> Inl (ConversionError tok) | Some v \<Rightarrow> Inr v)"

text \<open>
  \<open>[n for n, ln in enumerate(lines) if p(ln)]\<close>, and its element \<open>[0]\<close>.
\<close>

definition indices :: "('a \<Rightarrow> bool) \<Rightarrow> 'a list \<Rightarrow> nat list" where
  "indices p xs = map fst (filter (\<lambda>(n, ln). p ln) (enumerate 0 xs))"

definition first_index :: "('a \<Rightarrow> bool) \<Rightarrow> 'a list \<Rightarrow> py_error + nat" where
  "first_index p xs = getitem (indices p xs) 0"

text \<open>
  The slice \<open>xs[i:j]\<close>: a negative bound counts from the end, and both bounds
  are clamped to the sequence.
\<close>

definition slice :: "'a list \<Rightarrow> int \<Rightarrow> int \<Rightarrow> 'a list" where
  "slice xs i j =
     (let n = int (length xs);
          a = (if i < 0 then max 0 (n + i) else min n i);
          b = (if j < 0 then max 0 (n + j) else min n j)
      in take (nat (b - a)) (drop (nat a) xs))"

subsection \<open>The file system and the standard output\<close>

text \<open>
  The world holds the text of every file that exists, what has been printed,
  and the calls of \<open>open\<close> in the order they were made. A file either exists
  and can be read, or does not exist; other failures of the operating system
  are not modelled.
\<close>

datatype open_mode = Reading | Writing

record world =
  files :: "string \<Rightarrow> string option"
  stdout :: string
  open_calls :: "(string \<times> open_mode) list"

definition open_read :: "string \<Rightarrow> world \<Rightarrow> (py_error + string) \<times> world" where
  "open_read name w =
     (let w' = w\<lparr>open_calls := open_calls w @ [(name, Reading)]\<rparr>
      in case files w name of
           None \<Rightarrow> (Inl (FileNotFoundError name), w')
         | Some txt \<Rightarrow> (Inr txt, w'))"

text \<open>
  \<open>with open(name, 'wt') as f: f.writelines(ls)\<close>: the file is created or
  truncated, and the strings are written one after the other.
\<close>

definition open_writelines :: "string \<Rightarrow> string list \<Rightarrow> world \<Rightarrow> world" where
  "open_writelines name ls w =
     w\<lparr>files := (files w)(name \<mapsto> concat ls),
       open_calls := open_calls w @ [(name, Writing)]\<rparr>"

subsection \<open>read_displacements\<close>

text \<open>The body of the function once the stripped lines are there.\<close>

definition displacements_of :: "(string \<Rightarrow> 'f option) \<Rightarrow> string list \<Rightarrow> py_error + 'f list list" where
  "displacements_of py_float lines =
     (case first_index (contains ''energy'') lines of
        Inl err \<Rightarrow> Inl err
      | Inr e \<Rightarrow>
          (let start0 = int e + 2; end = start0 - 3
           in case first_index (contains ''displacements'') lines of
                Inl err \<Rightarrow> Inl err
              | Inr d \<Rightarrow>
                  (let start = int d + 2
                   in traverse (\<lambda>ln. traverse (convert py_float) (drop 1 (split ln)))
                        (slice lines start end))))"

definition read_displacements ::
  "(string \<Rightarrow> 'f option) \<Rightarrow> string \<Rightarrow> world \<Rightarrow> (py_error + 'f list list) \<times> world" where
  "read_displacements py_float base w =
     (case open_read (base @ ''.dat'') w of
        (Inl err, w') \<Rightarrow> (Inl err, w')
      | (Inr txt, w') \<Rightarrow> (displacements_of py_float (map strip (readlines txt)), w'))"

subsection \<open>read_expansion\<close>

text \<open>The body of the loop \<open>for i in indices\<close>, in the order the source evaluates it.\<close>

definition expansion_at :: "(string \<Rightarrow> int option) \<Rightarrow> string list \<Rightarrow> nat \<Rightarrow> py_error + expansion" where
  "expansion_at py_int lines i =
     (case getitem lines (int i) of Inl err \<Rightarrow> Inl err | Inr ln0 \<Rightarrow>
      case getitem (split ln0) 1 of Inl err \<Rightarrow> Inl err | Inr tok \<Rightarrow>
      case convert py_int tok of Inl err \<Rightarrow> Inl err | Inr el \<Rightarrow>
      case getitem lines (int i + 1) of Inl err \<Rightarrow> Inl err | Inr ln1 \<Rightarrow>
      case traverse (convert py_int) (split ln1) of Inl err \<Rightarrow> Inl err | Inr org \<Rightarrow>
      case getitem lines (int i + 3) of Inl err \<Rightarrow> Inl err | Inr ln3 \<Rightarrow>
      case traverse (convert py_int) (split ln3) of Inl err \<Rightarrow> Inl err | Inr new3 \<Rightarrow>
      case getitem lines (int i + 4) of Inl err \<Rightarrow> Inl err | Inr ln4 \<Rightarrow>
      case traverse (convert py_int) (split ln4) of Inl err \<Rightarrow> Inl err | Inr new4 \<Rightarrow>
        Inr \<lparr>element = el, orig = org, new = new3 @ new4\<rparr>)"

definition expansions_of :: "(string \<Rightarrow> int option) \<Rightarrow> string list \<Rightarrow> py_error + expansion list" where
  "expansions_of py_int lines =
     traverse (expansion_at py_int lines) (indices (\<lambda>ln. startswith ln ''ELEMENT'') lines)"

definition read_expansion ::
  "(string \<Rightarrow> int option) \<Rightarrow> string \<Rightarrow> world \<Rightarrow> (py_error + expansion list) \<times> world" where
  "read_expansion py_int base w =
     (case open_read (base @ ''.12d'') w of
        (Inl err, w') \<Rightarrow> (Inl err, w')
      | (Inr txt, w') \<Rightarrow> (expansions_of py_int (map strip (readlines txt)), w'))"

subsection \<open>splice\<close>

text \<open>
  One record of the output, the f-string of the source. The format \<open> 11.5E\<close>
  of a floating-point number is the parameter \<open>fmt\<close>. Unpacking
  \<open>(dx, dy, dz)\<close> raises when the displacement does not have three components.
\<close>

definition record_line :: "('f \<Rightarrow> string) \<Rightarrow> int \<times> 'f list \<Rightarrow> py_error + string" where
  "record_line fmt p =
     (case p of
        (node, [dx, dy, dz]) \<Rightarrow>
          Inr ('' -1'' @ rjust 10 (str_int node) @ fmt dx @ fmt dy @ fmt dz @ [nl])
      | _ \<Rightarrow> Inl UnpackError)"

definition splice ::
  "('f \<Rightarrow> string) \<Rightarrow> string \<Rightarrow> (int \<times> 'f list) list \<Rightarrow> world \<Rightarrow> (py_error + unit) \<times> world" where
  "splice fmt base new_disp w =
     (case open_read (base @ ''.frd'') w of
        (Inl err, w') \<Rightarrow> (Inl err, w')
      | (Inr txt, w') \<Rightarrow>
          (let lines = readlines txt
           in case first_index (contains ''DISP'') lines of
                Inl err \<Rightarrow> (Inl err, w')
              | Inr i \<Rightarrow>
                  (let idx = i + 5
                   in case getitem lines (int idx) of
                        Inl err \<Rightarrow> (Inl err, w')
                      | Inr ln \<Rightarrow>
                          if \<not> startswith (strip ln) ''-3''
                          then (Inl (ValueError (''wrong offset: '' @ str_int (int idx))), w')
                          else (case traverse (record_line fmt) new_disp of
                                  Inl err \<Rightarrow> (Inl err, w')
                                | Inr spliced \<Rightarrow>
                                    (let before = take idx lines;
                                         after = drop idx lines;
                                         total = before @ spliced @ after
                                     in (Inr (), open_writelines (base @ ''-post.frd'') total w'))))))"

subsection \<open>main\<close>

text \<open>
  \<open>sys_argv\<close> is \<open>sys.argv\<close>, the name of the script first; \<open>doc\<close> is the
  docstring of the module. \<open>sys.exit(1)\<close> raises \<open>SystemExit\<close>.
\<close>

definition main ::
  "(string \<Rightarrow> 'f option) \<Rightarrow> (string \<Rightarrow> int option) \<Rightarrow> ('f \<Rightarrow> string) \<Rightarrow> string \<Rightarrow>
   string list \<Rightarrow> world \<Rightarrow> (py_error + unit) \<times> world" where
  "main py_float py_int fmt doc sys_argv w =
     (if length sys_argv < 2
      then (Inl (SystemExit 1), w\<lparr>stdout := stdout w @ doc @ [nl]\<rparr>)
      else (case read_displacements py_float (sys_argv ! 1) w of
              (Inl err, w1) \<Rightarrow> (Inl err, w1)
            | (Inr orig_disp, w1) \<Rightarrow>
                (case read_expansion py_int (sys_argv ! 1) w1 of
                   (Inl err, w2) \<Rightarrow> (Inl err, w2)
                 | (Inr expansion, w2) \<Rightarrow>
                     (case new_displacements orig_disp expansion of
                        Inl err \<Rightarrow> (Inl err, w2)
                      | Inr new_disp \<Rightarrow> splice fmt (sys_argv ! 1) new_disp w2))))"

text \<open>
  The exit status of the interpreter: 0 when the script returns, the argument
  of \<open>sys.exit\<close>, and 1 for every other exception that nothing catches.
\<close>

definition exit_status :: "py_error + unit \<Rightarrow> int" where
  "exit_status r = (case r of Inr _ \<Rightarrow> 0 | Inl (SystemExit n) \<Rightarrow> n | Inl _ \<Rightarrow> 1)"

declare digits.simps [simp del]

section \<open>Properties\<close>

subsection \<open>Subscripts and traversals\<close>

lemma getitem_nat:
  "getitem xs (int m) = Inr k \<longleftrightarrow> m < length xs \<and> k = xs ! m"
  by (auto simp: getitem_def Let_def)

lemma getitem_nat_Inl:
  "getitem xs (int m) = Inl err \<longleftrightarrow> err = IndexError \<and> length xs \<le> m"
  by (auto simp: getitem_def Let_def)

lemma getitem_Inr_iff:
  "getitem xs i = Inr v \<longleftrightarrow>
     (0 \<le> i \<and> i < int (length xs) \<and> v = xs ! nat i) \<or>
     (- int (length xs) \<le> i \<and> i < 0 \<and> v = xs ! nat (int (length xs) + i))"
  by (auto simp: getitem_def Let_def)

lemma getitem_Inl_iff:
  "getitem xs i = Inl err \<longleftrightarrow> err = IndexError \<and> (i < - int (length xs) \<or> int (length xs) \<le> i)"
  by (auto simp: getitem_def Let_def)

lemma getitem_offset:
  "i + k < length xs \<Longrightarrow> getitem xs (int i + int k) = Inr (xs ! (i + k))"
  using getitem_nat [of xs "i + k"] by simp

lemma getitem_update_other:
  "0 \<le> j \<Longrightarrow> nat j \<noteq> k \<Longrightarrow> getitem (xs[k := v]) j = getitem xs j"
  by (simp add: getitem_def)

lemma traverse_Inr:
  "traverse f xs = Inr ys \<Longrightarrow> list_all2 (\<lambda>x y. f x = Inr y) xs ys"
  by (induction xs arbitrary: ys) (auto split: sum.splits)

lemma traverse_all_Inr:
  "\<forall>x \<in> set xs. \<exists>y. f x = Inr y \<Longrightarrow> \<exists>ys. traverse f xs = Inr ys"
  by (induction xs) (auto split: sum.splits)

lemma traverse_map:
  "\<forall>x \<in> set xs. f x = Inr (g x) \<Longrightarrow> traverse f xs = Inr (map g xs)"
  by (induction xs) simp_all

lemma traverse_Inl:
  "traverse f xs = Inl err \<Longrightarrow> \<exists>x \<in> set xs. f x = Inl err"
  by (induction xs) (auto split: sum.splits)

lemma convert_Some: "conv tok \<noteq> None \<Longrightarrow> convert conv tok = Inr (the (conv tok))"
  by (auto simp: convert_def)

lemma traverse_convert:
  "\<forall>t \<in> set ts. conv t \<noteq> None \<Longrightarrow>
   traverse (convert conv) ts = Inr (map (\<lambda>t. the (conv t)) ts)"
  by (rule traverse_map) (simp add: convert_Some)

subsection \<open>Lines and indices\<close>

lemma terminated_snoc: "nl \<notin> set s \<Longrightarrow> terminated (s @ [nl])"
  by (simp add: terminated_def)

lemma terminatedE:
  assumes "terminated ln"
  obtains s where "ln = s @ [nl]" and "nl \<notin> set s"
  using assms by (metis append_butlast_last_id terminated_def)

lemma readlines_from_no_nl:
  "nl \<notin> set s \<Longrightarrow> readlines_from ln (s @ rest) = readlines_from (ln @ s) rest"
  by (induction s arbitrary: ln) auto

lemma readlines_from_line:
  "terminated l \<Longrightarrow> readlines_from [] (l @ rest) = l # readlines_from [] rest"
proof -
  assume "terminated l"
  then obtain s where l: "l = s @ [nl]" and s: "nl \<notin> set s" by (rule terminatedE)
  from readlines_from_no_nl [OF s, of "[]" "nl # rest"] l show ?thesis by simp
qed

lemma readlines_from_concat:
  "\<forall>l \<in> set ls. terminated l \<Longrightarrow>
   readlines_from [] (concat ls @ rest) = ls @ readlines_from [] rest"
  by (induction ls) (simp_all add: readlines_from_line)

lemma readlines_from_last:
  "nl \<notin> set t \<Longrightarrow> readlines_from [] t = (if t = [] then [] else [t])"
  using readlines_from_no_nl [of t "[]" "[]"] by simp

lemma readlines_from_shape:
  "nl \<notin> set ln \<Longrightarrow>
   \<exists>ls t. readlines_from ln content = ls @ (if t = [] then [] else [t]) \<and>
          (\<forall>l \<in> set ls. terminated l) \<and> nl \<notin> set t \<and> ln @ content = concat ls @ t"
proof (induction content arbitrary: ln)
  case Nil
  then show ?case
    by (intro exI [of _ "[]"] exI [of _ ln]) simp
next
  case (Cons c cs)
  show ?case
  proof (cases "c = nl")
    case True
    from Cons.IH [of "[]"] obtain ls t
      where r: "readlines_from [] cs = ls @ (if t = [] then [] else [t])"
        and a: "\<forall>l \<in> set ls. terminated l" and t: "nl \<notin> set t" and c: "cs = concat ls @ t"
      by auto
    from Cons.prems True have "terminated (ln @ [c])" by (simp add: terminated_snoc)
    with r a t c True show ?thesis
      by (intro exI [of _ "(ln @ [c]) # ls"] exI [of _ t]) auto
  next
    case False
    with Cons.prems have "nl \<notin> set (ln @ [c])" by simp
    from Cons.IH [OF this] False show ?thesis by simp
  qed
qed

lemma readlines_shape:
  "\<exists>ls t. readlines content = ls @ (if t = [] then [] else [t]) \<and>
          (\<forall>l \<in> set ls. terminated l) \<and> nl \<notin> set t \<and> content = concat ls @ t"
  using readlines_from_shape [of "[]" content] by (simp add: readlines_def)

lemma concat_readlines: "concat (readlines content) = content"
  using readlines_shape [of content] by auto

lemma readlines_insert:
  assumes "idx < length (readlines content)" and "\<forall>r \<in> set recs. terminated r"
  shows "readlines (concat (take idx (readlines content) @ recs @ drop idx (readlines content))) =
           take idx (readlines content) @ recs @ drop idx (readlines content)"
proof -
  from readlines_shape [of content] obtain ls t
    where r: "readlines content = ls @ (if t = [] then [] else [t])"
      and a: "\<forall>l \<in> set ls. terminated l" and t: "nl \<notin> set t"
    by blast
  let ?tl = "if t = [] then [] else [t]"
  from assms(1) r have le: "idx \<le> length ls" by (auto split: if_splits)
  then have tk: "take idx (readlines content) = take idx ls"
    and dr: "drop idx (readlines content) = drop idx ls @ ?tl"
    using r by simp_all
  let ?mid = "take idx ls @ recs @ drop idx ls"
  have m: "\<forall>l \<in> set ?mid. terminated l"
    using a assms(2) by (auto dest: in_set_takeD in_set_dropD)
  have "concat (take idx (readlines content) @ recs @ drop idx (readlines content)) = concat ?mid @ t"
    by (simp add: tk dr)
  then have "readlines (concat (take idx (readlines content) @ recs @ drop idx (readlines content)))
      = ?mid @ readlines_from [] t"
    using readlines_from_concat [OF m, of t] by (simp add: readlines_def)
  also have "\<dots> = ?mid @ ?tl" using readlines_from_last [OF t] by simp
  also have "\<dots> = take idx (readlines content) @ recs @ drop idx (readlines content)"
    by (simp add: tk dr)
  finally show ?thesis .
qed

lemma indices_eq: "indices p xs = filter (\<lambda>n. p (xs ! n)) [0..<length xs]"
proof (induction xs rule: rev_induct)
  case Nil
  then show ?case by (simp add: indices_def)
next
  case (snoc x xs)
  have "filter (\<lambda>n. p ((xs @ [x]) ! n)) [0..<length xs] = filter (\<lambda>n. p (xs ! n)) [0..<length xs]"
    by (rule filter_cong) (auto simp: nth_append)
  with snoc show ?case
    by (simp add: indices_def enumerate_append_eq)
qed

lemma first_index_Inr:
  assumes "i < length xs" and "p (xs ! i)" and "\<forall>j<i. \<not> p (xs ! j)"
  shows "first_index p xs = Inr i"
proof -
  from assms(1) have "[0..<length xs] = [0..<i] @ i # [Suc i..<length xs]"
    by (metis le_add1 le_add_same_cancel1 less_imp_add_positive upt_add_eq_append upt_conv_Cons)
  moreover from assms(3) have "filter (\<lambda>n. p (xs ! n)) [0..<i] = []"
    by (simp add: filter_empty_conv)
  ultimately have "indices p xs = i # filter (\<lambda>n. p (xs ! n)) [Suc i..<length xs]"
    using assms(2) by (simp add: indices_eq)
  then show ?thesis by (simp add: first_index_def getitem_def)
qed

lemma first_index_Inl:
  "first_index p xs = Inl err \<longleftrightarrow> err = IndexError \<and> (\<forall>x \<in> set xs. \<not> p x)"
proof -
  have "indices p xs = [] \<longleftrightarrow> (\<forall>x \<in> set xs. \<not> p x)"
    by (auto simp: indices_eq filter_empty_conv all_set_conv_all_nth)
  then show ?thesis
    by (cases "indices p xs") (auto simp: first_index_def getitem_def)
qed

lemma take_drop_upt:
  "b \<le> length xs \<Longrightarrow> take (b - a) (drop a xs) = map (\<lambda>j. xs ! j) [a..<b]"
  by (auto simp: list_eq_iff_nth_eq)

lemma slice_nat:
  assumes "b \<le> length xs"
  shows "slice xs (int a) (int b) = map (\<lambda>j. xs ! j) [a..<b]"
proof (cases "a \<le> b")
  case True
  with assms have "slice xs (int a) (int b) = take (b - a) (drop a xs)"
    by (simp add: slice_def Let_def min_def nat_diff_distrib')
  with assms show ?thesis by (simp add: take_drop_upt)
next
  case False
  with assms show ?thesis
    by (simp add: slice_def Let_def min_def)
qed

subsection \<open>new_displacements\<close>

lemma assign_keys:
  "assign od org nd (x, n) = Inr nd' \<Longrightarrow> fst ` set nd' = insert n (fst ` set nd)"
  by (auto simp: assign_def split: if_splits sum.splits)

lemma assign_keeps:
  "assign od org nd p = Inr nd' \<Longrightarrow> map_of nd k = Some d \<Longrightarrow> map_of nd' k = Some d"
  by (cases p) (auto simp: assign_def map_add_Some_iff split: if_splits sum.splits)

lemma assign_distinct:
  "assign od org nd p = Inr nd' \<Longrightarrow> distinct (map fst nd) \<Longrightarrow> distinct (map fst nd')"
  by (cases p) (auto simp: assign_def split: if_splits sum.splits)

lemma assign_fresh:
  "assign od org nd (x, n) = Inr nd' \<Longrightarrow> n \<notin> fst ` set nd \<Longrightarrow>
   \<exists>d. copied od org x = Inr d \<and> nd' = nd @ [(n, d)] \<and> map_of nd' n = Some d"
  by (auto simp: assign_def map_add_Some_iff map_of_eq_None_iff split: if_splits sum.splits)

lemma slots_loop_keys:
  "slots_loop od org nd ps = Inr nd' \<Longrightarrow> fst ` set nd' = fst ` set nd \<union> snd ` set ps"
proof (induction ps arbitrary: nd)
  case Nil
  then show ?case by simp
next
  case (Cons p ps)
  then obtain nd1 where a: "assign od org nd p = Inr nd1" and l: "slots_loop od org nd1 ps = Inr nd'"
    by (auto split: sum.splits)
  from a have "fst ` set nd1 = insert (snd p) (fst ` set nd)"
    by (cases p) (simp add: assign_keys)
  with Cons.IH [OF l] show ?case by auto
qed

lemma slots_loop_keeps:
  "slots_loop od org nd ps = Inr nd' \<Longrightarrow> map_of nd k = Some d \<Longrightarrow> map_of nd' k = Some d"
  by (induction ps arbitrary: nd) (auto split: sum.splits dest: assign_keeps)

lemma slots_loop_distinct:
  "slots_loop od org nd ps = Inr nd' \<Longrightarrow> distinct (map fst nd) \<Longrightarrow> distinct (map fst nd')"
  by (induction ps arbitrary: nd) (auto split: sum.splits dest: assign_distinct)

lemma slots_loop_first:
  "slots_loop od org nd (enumerate i xs) = Inr nd' \<Longrightarrow> n \<notin> fst ` set nd \<Longrightarrow>
   x < length xs \<Longrightarrow> xs ! x = n \<Longrightarrow> n \<notin> set (take x xs) \<Longrightarrow>
   \<exists>d. copied od org (i + x) = Inr d \<and> map_of nd' n = Some d"
proof (induction xs arbitrary: i nd x)
  case Nil
  then show ?case by simp
next
  case (Cons y ys)
  from Cons.prems(1) obtain nd1 where a: "assign od org nd (i, y) = Inr nd1"
    and l: "slots_loop od org nd1 (enumerate (Suc i) ys) = Inr nd'"
    by (auto split: sum.splits)
  show ?case
  proof (cases x)
    case 0
    with Cons.prems have "y = n" by simp
    with a Cons.prems(2) obtain d where "copied od org i = Inr d" "map_of nd1 n = Some d"
      using assign_fresh by blast
    with l 0 show ?thesis by (auto dest: slots_loop_keeps)
  next
    case (Suc x')
    with Cons.prems have "y \<noteq> n" "x' < length ys" "ys ! x' = n" "n \<notin> set (take x' ys)"
      by auto
    moreover from a have "fst ` set nd1 = insert y (fst ` set nd)" by (rule assign_keys)
    ultimately have "\<exists>d. copied od org (Suc i + x') = Inr d \<and> map_of nd' n = Some d"
      using Cons.IH [OF l] Cons.prems(2) by auto
    with Suc show ?thesis by simp
  qed
qed

lemma expansion_loop_keys:
  "expansion_loop od nd es = Inr nd' \<Longrightarrow>
   fst ` set nd' = fst ` set nd \<union> (\<Union>e \<in> set es. set (new e))"
proof (induction es arbitrary: nd)
  case Nil
  then show ?case by simp
next
  case (Cons e es)
  then obtain nd1 where a: "slots_loop od (orig e) nd (enumerate 0 (new e)) = Inr nd1"
    and l: "expansion_loop od nd1 es = Inr nd'"
    by (auto split: sum.splits)
  have "snd ` set (enumerate 0 (new e)) = set (new e)"
    by (metis list.set_map map_snd_enumerate)
  with slots_loop_keys [OF a] Cons.IH [OF l] show ?case by auto
qed

lemma expansion_loop_keeps:
  "expansion_loop od nd es = Inr nd' \<Longrightarrow> map_of nd k = Some d \<Longrightarrow> map_of nd' k = Some d"
  by (induction es arbitrary: nd) (auto split: sum.splits dest: slots_loop_keeps)

lemma expansion_loop_distinct:
  "expansion_loop od nd es = Inr nd' \<Longrightarrow> distinct (map fst nd) \<Longrightarrow> distinct (map fst nd')"
  by (induction es arbitrary: nd) (auto split: sum.splits dest: slots_loop_distinct)

lemma expansion_loop_first:
  "expansion_loop od nd (es1 @ e # es2) = Inr nd' \<Longrightarrow> n \<notin> fst ` set nd \<Longrightarrow>
   \<forall>e' \<in> set es1. n \<notin> set (new e') \<Longrightarrow>
   x < length (new e) \<Longrightarrow> new e ! x = n \<Longrightarrow> n \<notin> set (take x (new e)) \<Longrightarrow>
   \<exists>d. copied od (orig e) x = Inr d \<and> map_of nd' n = Some d"
proof (induction es1 arbitrary: nd)
  case Nil
  then obtain nd1 where a: "slots_loop od (orig e) nd (enumerate 0 (new e)) = Inr nd1"
    and l: "expansion_loop od nd1 es2 = Inr nd'"
    by (auto split: sum.splits)
  from slots_loop_first [OF a Nil.prems(2) Nil.prems(4) Nil.prems(5) Nil.prems(6)]
  obtain d where "copied od (orig e) x = Inr d" "map_of nd1 n = Some d" by auto
  with l show ?case by (auto dest: expansion_loop_keeps)
next
  case (Cons e' es1)
  from Cons.prems(1) obtain nd1 where a: "slots_loop od (orig e') nd (enumerate 0 (new e')) = Inr nd1"
    and l: "expansion_loop od nd1 (es1 @ e # es2) = Inr nd'"
    by (auto split: sum.splits)
  have "snd ` set (enumerate 0 (new e')) = set (new e')"
    by (metis list.set_map map_snd_enumerate)
  with slots_loop_keys [OF a] Cons.prems(2,3) have "n \<notin> fst ` set nd1" by auto
  with Cons.IH [OF l] Cons.prems show ?case by auto
qed

lemma map_of_mapping:
  "map_of mapping x = (if x < 15 then Some ([0, 1, 2, 0, 1, 2, 3, 4, 5, 3, 4, 5, 0, 1, 2] ! x) else None)"
proof (cases "x < 15")
  case True
  then have "x = 0 \<or> x = 1 \<or> x = 2 \<or> x = 3 \<or> x = 4 \<or> x = 5 \<or> x = 6 \<or> x = 7 \<or>
      x = 8 \<or> x = 9 \<or> x = 10 \<or> x = 11 \<or> x = 12 \<or> x = 13 \<or> x = 14"
    by arith
  then show ?thesis
    by (auto simp: mapping_def)
next
  case False
  then show ?thesis by (simp add: mapping_def)
qed

lemma copied_Inr:
  "copied od org x = Inr d \<longleftrightarrow>
     x < 15 \<and> [0, 1, 2, 0, 1, 2, 3, 4, 5, 3, 4, 5, 0, 1, 2] ! x < length org \<and>
     getitem od (org ! ([0, 1, 2, 0, 1, 2, 3, 4, 5, 3, 4, 5, 0, 1, 2] ! x) - 1) = Inr d"
  by (auto simp: copied_def mapping_get_def map_of_mapping getitem_nat getitem_nat_Inl
      split: sum.splits)

lemma new_displacements_Inr:
  assumes "new_displacements od ex = Inr out"
  shows "\<exists>nd. expansion_loop od [] ex = Inr nd \<and> map fst out = sort (map fst nd) \<and>
           distinct (map fst nd) \<and> (\<forall>n. map_of out n = map_of nd n)"
proof -
  from assms obtain nd where l: "expansion_loop od [] ex = Inr nd"
    and t: "traverse (\<lambda>i. case newdisp_get nd i of Inl err \<Rightarrow> Inl err | Inr d \<Rightarrow> Inr (i, d))
              (sort (map fst nd)) = Inr out"
    by (auto simp: new_displacements_def Let_def split: sum.splits)
  from traverse_Inr [OF t]
  have a: "list_all2 (\<lambda>i y. fst y = i \<and> map_of nd i = Some (snd y)) (sort (map fst nd)) out"
    by (rule list_all2_mono) (auto simp: newdisp_get_def split: option.splits sum.splits)
  then have "list_all2 (\<lambda>i y. i = fst y) (sort (map fst nd)) out"
    by (rule list_all2_mono) auto
  then have keys: "map fst out = sort (map fst nd)"
    by (induction rule: list_all2_induct) auto
  from l have d: "distinct (map fst nd)"
    by (rule expansion_loop_distinct) simp
  have "map_of out n = map_of nd n" for n
  proof (cases "map_of out n")
    case None
    then have "n \<notin> fst ` set out" by (simp add: map_of_eq_None_iff)
    then have "n \<notin> fst ` set nd"
      using keys by (metis list.set_map set_sort)
    then have "map_of nd n = None" by (simp add: map_of_eq_None_iff)
    with None show ?thesis by simp
  next
    case (Some v)
    then have "(n, v) \<in> set out" by (rule map_of_SomeD)
    with a have "map_of nd n = Some v"
      by (auto simp: list_all2_conv_all_nth in_set_conv_nth)
    with Some show ?thesis by simp
  qed
  with l keys d show ?thesis by blast
qed

lemma new_displacements_distinct:
  "new_displacements od ex = Inr out \<Longrightarrow> distinct (map fst out)"
  using new_displacements_Inr [of od ex out] by auto

lemma first_occurrence:
  assumes "new_displacements od (es1 @ e # es2) = Inr out"
    and "\<forall>e' \<in> set es1. n \<notin> set (new e')"
    and "x < length (new e)" and "new e ! x = n" and "n \<notin> set (take x (new e))"
  shows "\<exists>d. copied od (orig e) x = Inr d \<and> map_of out n = Some d"
proof -
  from assms(1) obtain nd where l: "expansion_loop od [] (es1 @ e # es2) = Inr nd"
    and m: "\<forall>n. map_of out n = map_of nd n"
    using new_displacements_Inr by blast
  from expansion_loop_first [OF l _ assms(2-5)] m show ?thesis by simp
qed

text \<open>
  Claim C1. Let the node id \<open>n\<close> stand at slot \<open>x\<close> of the record \<open>e\<close> and
  nowhere before: in no earlier record and at no earlier slot of \<open>e\<close>, so it
  is not yet assigned when the slot is visited. When \<open>new_displacements\<close>
  returns, the slot is one of the 15 slots of the table, the table's entry \<open>m\<close>
  is a position of \<open>orig e\<close>, and \<open>n\<close> has the displacement found at index
  \<open>k - 1\<close> of the original sequence, where \<open>k = orig e ! m\<close>; for
  \<open>1 \<le> k \<le> len\<close> this is the displacement of the original node \<open>k\<close>, counted
  from 1. The value is the element of the original sequence itself: the
  function is polymorphic in the displacement and cannot change it.
\<close>

theorem new_displacements_copies_mapped_original:
  assumes "new_displacements orig_disp (es1 @ e # es2) = Inr out"
    and "\<forall>e' \<in> set es1. n \<notin> set (new e')"
    and "x < length (new e)" and "new e ! x = n" and "n \<notin> set (take x (new e))"
    and "m = [0, 1, 2, 0, 1, 2, 3, 4, 5, 3, 4, 5, 0, 1, 2] ! x"
    and "k = orig e ! m"
  shows "x < 15 \<and> m < length (orig e) \<and>
         (\<exists>d. getitem orig_disp (k - 1) = Inr d \<and> map_of out n = Some d \<and>
              (1 \<le> k \<and> k \<le> int (length orig_disp) \<longrightarrow> d = orig_disp ! nat (k - 1)))"
proof -
  from first_occurrence [OF assms(1-5)]
  obtain d where c: "copied orig_disp (orig e) x = Inr d" and o: "map_of out n = Some d"
    by blast
  from c assms(6,7) have b: "x < 15" "m < length (orig e)" "getitem orig_disp (k - 1) = Inr d"
    by (simp_all add: copied_Inr)
  from b(3) have "1 \<le> k \<and> k \<le> int (length orig_disp) \<longrightarrow> d = orig_disp ! nat (k - 1)"
    by (auto simp: getitem_Inr_iff)
  with b o show ?thesis by blast
qed

text \<open>
  Two original nodes and two records that share the new node 20; the new node
  10 stands at slot 1 of the first record, whose entry 1 is the original node 2.
\<close>

theorem new_displacements_copies_mapped_original_witness:
  "new_displacements [[1, 0, 0 :: int], [0, 2, 0]]
     [\<lparr>element = 1, orig = [1, 2, 1, 1, 1, 1], new = [20, 10, 30]\<rparr>,
      \<lparr>element = 2, orig = [2, 2, 2, 2, 2, 2], new = [20, 5]\<rparr>]
     = Inr [(5, [0, 2, 0]), (10, [0, 2, 0]), (20, [1, 0, 0]), (30, [1, 0, 0])] \<and>
   getitem [[1, 0, 0 :: int], [0, 2, 0]] (2 - 1) = Inr [0, 2, 0] \<and>
   map_of [(5 :: int, [0, 2, 0 :: int]), (10, [0, 2, 0]), (20, [1, 0, 0]), (30, [1, 0, 0])] 10
     = Some ([[1, 0, 0], [0, 2, 0]] ! nat (2 - 1))"
proof -
  have run: "new_displacements [[1, 0, 0 :: int], [0, 2, 0]]
     ([] @ \<lparr>element = 1, orig = [1, 2, 1, 1, 1, 1], new = [20, 10, 30]\<rparr> #
        [\<lparr>element = 2, orig = [2, 2, 2, 2, 2, 2], new = [20, 5]\<rparr>])
     = Inr [(5, [0, 2, 0]), (10, [0, 2, 0]), (20, [1, 0, 0]), (30, [1, 0, 0])]"
    by code_simp
  from new_displacements_copies_mapped_original [OF run, where n = 10 and x = 1 and m = 1 and k = 2] run
  show ?thesis by simp
qed

text \<open>
  Claim C2. Let two records \<open>e1\<close>, before \<open>e2\<close>, both hold the node id \<open>K\<close>,
  and let no record before \<open>e1\<close> hold it. Then the displacement of \<open>K\<close> in the
  output is the one that \<open>e1\<close> gives at the first slot where it holds \<open>K\<close>,
  whatever \<open>e2\<close> would give; the output has no other pair for \<open>K\<close>; and the
  loop body leaves the dictionary as it is for a key that is already there,
  without evaluating or comparing the later lookup.
\<close>

theorem new_displacements_first_seen_wins:
  assumes "new_displacements orig_disp (es1 @ e1 # es2 @ e2 # es3) = Inr out"
    and "\<forall>e' \<in> set es1. K \<notin> set (new e')"
    and "x1 < length (new e1)" and "new e1 ! x1 = K" and "K \<notin> set (take x1 (new e1))"
    and "K \<in> set (new e2)"
  shows "\<exists>d. copied orig_disp (orig e1) x1 = Inr d \<and> map_of out K = Some d \<and>
             (\<forall>d'. (K, d') \<in> set out \<longrightarrow> d' = d) \<and>
             (\<forall>org x newdisp. K \<in> fst ` set newdisp \<longrightarrow>
                  assign orig_disp org newdisp (x, K) = Inr newdisp)"
proof -
  from first_occurrence [OF assms(1-5)]
  obtain d where c: "copied orig_disp (orig e1) x1 = Inr d" and o: "map_of out K = Some d"
    by blast
  from assms(1) have dist: "distinct (map fst out)" by (rule new_displacements_distinct)
  have "d' = d" if "(K, d') \<in> set out" for d'
    using map_of_is_SomeI [OF dist that] o by simp
  then have "\<forall>d'. (K, d') \<in> set out \<longrightarrow> d' = d" by blast
  moreover have "\<forall>org x newdisp. K \<in> fst ` set newdisp \<longrightarrow>
      assign orig_disp org newdisp (x, K) = Inr newdisp"
    by (simp add: assign_def)
  ultimately show ?thesis using c o by blast
qed

text \<open>
  The same input: the first record gives the new node 20 the displacement of
  the original node 1, the second would give it that of node 2.
\<close>

theorem new_displacements_first_seen_wins_witness:
  "new_displacements [[1, 0, 0 :: int], [0, 2, 0]]
     [\<lparr>element = 1, orig = [1, 2, 1, 1, 1, 1], new = [20, 10, 30]\<rparr>,
      \<lparr>element = 2, orig = [2, 2, 2, 2, 2, 2], new = [20, 5]\<rparr>]
     = Inr [(5, [0, 2, 0]), (10, [0, 2, 0]), (20, [1, 0, 0]), (30, [1, 0, 0])] \<and>
   copied [[1, 0, 0 :: int], [0, 2, 0]] [1, 2, 1, 1, 1, 1] 0 = Inr [1, 0, 0] \<and>
   copied [[1, 0, 0 :: int], [0, 2, 0]] [2, 2, 2, 2, 2, 2] 0 = Inr [0, 2, 0] \<and>
   map_of [(5 :: int, [0, 2, 0 :: int]), (10, [0, 2, 0]), (20, [1, 0, 0]), (30, [1, 0, 0])] 20
     = Some [1, 0, 0]"
proof -
  have run: "new_displacements [[1, 0, 0 :: int], [0, 2, 0]]
     ([] @ \<lparr>element = 1, orig = [1, 2, 1, 1, 1, 1], new = [20, 10, 30]\<rparr> #
        [] @ \<lparr>element = 2, orig = [2, 2, 2, 2, 2, 2], new = [20, 5]\<rparr> # [])
     = Inr [(5, [0, 2, 0]), (10, [0, 2, 0]), (20, [1, 0, 0]), (30, [1, 0, 0])]"
    by code_simp
  have later: "copied [[1, 0, 0 :: int], [0, 2, 0]] [2, 2, 2, 2, 2, 2] 0 = Inr [0, 2, 0]"
    by code_simp
  from new_displacements_first_seen_wins [OF run, where K = 20 and ?x1.0 = 0] run later
  show ?thesis by auto
qed

text \<open>
  Claim C7. When \<open>new_displacements\<close> returns, the node ids of its pairs are
  strictly ascending (so each occurs once), and they are exactly the new-node
  ids that occur in the expansion records.
\<close>

theorem new_displacements_sorted_distinct_keys:
  "new_displacements orig_disp expansion = Inr out \<Longrightarrow>
     sorted_wrt (<) (map fst out) \<and>
     set (map fst out) = (\<Union>e \<in> set expansion. set (new e))"
proof -
  assume "new_displacements orig_disp expansion = Inr out"
  then obtain nd where l: "expansion_loop orig_disp [] expansion = Inr nd"
    and keys: "map fst out = sort (map fst nd)" and d: "distinct (map fst nd)"
    using new_displacements_Inr by blast
  from keys d have "sorted_wrt (<) (map fst out)"
    by (simp add: strict_sorted_iff)
  moreover from expansion_loop_keys [OF l] keys
  have "set (map fst out) = (\<Union>e \<in> set expansion. set (new e))"
    by simp
  ultimately show ?thesis by simp
qed

text \<open>The same input: the ids come out ascending, the shared id 20 once.\<close>

theorem new_displacements_sorted_distinct_keys_witness:
  "new_displacements [[1, 0, 0 :: int], [0, 2, 0]]
     [\<lparr>element = 1, orig = [1, 2, 1, 1, 1, 1], new = [20, 10, 30]\<rparr>,
      \<lparr>element = 2, orig = [2, 2, 2, 2, 2, 2], new = [20, 5]\<rparr>]
     = Inr [(5, [0, 2, 0]), (10, [0, 2, 0]), (20, [1, 0, 0]), (30, [1, 0, 0])] \<and>
   sorted_wrt (<) [5 :: int, 10, 20, 30] \<and>
   set [5 :: int, 10, 20, 30] = set [20, 10, 30] \<union> set [20, 5]"
proof -
  have run: "new_displacements [[1, 0, 0 :: int], [0, 2, 0]]
     [\<lparr>element = 1, orig = [1, 2, 1, 1, 1, 1], new = [20, 10, 30]\<rparr>,
      \<lparr>element = 2, orig = [2, 2, 2, 2, 2, 2], new = [20, 5]\<rparr>]
     = Inr [(5, [0, 2, 0]), (10, [0, 2, 0]), (20, [1, 0, 0]), (30, [1, 0, 0])]"
    by code_simp
  from new_displacements_sorted_distinct_keys [OF run] run show ?thesis by simp
qed

lemma assign_exact:
  assumes "n \<notin> fst ` set newdisp" and "x < 15"
    and "m = [0, 1, 2, 0, 1, 2, 3, 4, 5, 3, 4, 5, 0, 1, 2] ! x" and "m < length org"
    and "k = org ! m" and "L = int (length orig_disp)"
  shows "assign orig_disp org newdisp (x, n) =
           (if 1 \<le> k \<and> k \<le> L then Inr (newdisp @ [(n, orig_disp ! nat (k - 1))])
            else if - L < k \<and> k \<le> 0 then Inr (newdisp @ [(n, orig_disp ! nat (L + k - 1))])
            else Inl IndexError)"
  using assms
  by (auto simp: assign_def copied_def mapping_get_def map_of_mapping getitem_def Let_def
      add_diff_eq)

text \<open>
  Claim C10, as amended. Let \<open>k\<close> be the original node id that a new node is
  looked up with at its first occurrence, and \<open>L\<close> the length of the original
  sequence. The loop body assigns the displacement at index \<open>k - 1\<close> when
  \<open>1 \<le> k \<le> L\<close>; it wraps around and assigns the one at index \<open>L + k - 1\<close>,
  counted from the end, when \<open>- L < k \<le> 0\<close>; and it raises \<open>IndexError\<close> in
  every other case, that is for \<open>k > L\<close> and for \<open>k \<le> - L\<close>. So a run of
  \<open>new_displacements\<close> that returns has \<open>- L < k \<le> L\<close> and the value
  described, and a run with \<open>k\<close> outside this range fails.
\<close>

theorem new_displacements_index_wraparound:
  assumes "\<forall>e' \<in> set es1. n \<notin> set (new e')"
    and "x < length (new e)" and "new e ! x = n" and "n \<notin> set (take x (new e))"
    and "x < 15" and "m = [0, 1, 2, 0, 1, 2, 3, 4, 5, 3, 4, 5, 0, 1, 2] ! x"
    and "m < length (orig e)" and "k = orig e ! m" and "L = int (length orig_disp)"
  shows "(\<forall>newdisp. n \<notin> fst ` set newdisp \<longrightarrow>
            assign orig_disp (orig e) newdisp (x, n) =
              (if 1 \<le> k \<and> k \<le> L then Inr (newdisp @ [(n, orig_disp ! nat (k - 1))])
               else if - L < k \<and> k \<le> 0 then Inr (newdisp @ [(n, orig_disp ! nat (L + k - 1))])
               else Inl IndexError)) \<and>
         (\<forall>out. new_displacements orig_disp (es1 @ e # es2) = Inr out \<longrightarrow>
            - L < k \<and> k \<le> L \<and>
            map_of out n = Some (orig_disp ! nat (if k \<le> 0 then L + k - 1 else k - 1))) \<and>
         (k \<le> - L \<or> L < k \<longrightarrow> (\<exists>err. new_displacements orig_disp (es1 @ e # es2) = Inl err))"
proof -
  have step: "\<forall>newdisp. n \<notin> fst ` set newdisp \<longrightarrow>
      assign orig_disp (orig e) newdisp (x, n) =
        (if 1 \<le> k \<and> k \<le> L then Inr (newdisp @ [(n, orig_disp ! nat (k - 1))])
         else if - L < k \<and> k \<le> 0 then Inr (newdisp @ [(n, orig_disp ! nat (L + k - 1))])
         else Inl IndexError)"
    using assign_exact [OF _ assms(5-9)] by blast
  have ok: "- L < k \<and> k \<le> L \<and>
      map_of out n = Some (orig_disp ! nat (if k \<le> 0 then L + k - 1 else k - 1))"
    if run: "new_displacements orig_disp (es1 @ e # es2) = Inr out" for out
  proof -
    from first_occurrence [OF run assms(1-4)]
    obtain d where c: "copied orig_disp (orig e) x = Inr d" and o: "map_of out n = Some d"
      by blast
    from c assms(6,8) have "getitem orig_disp (k - 1) = Inr d"
      by (simp add: copied_Inr)
    with assms(9) have "- L < k \<and> k \<le> L \<and> d = orig_disp ! nat (if k \<le> 0 then L + k - 1 else k - 1)"
      by (auto simp: getitem_Inr_iff add_diff_eq)
    with o show ?thesis by simp
  qed
  have "\<exists>err. new_displacements orig_disp (es1 @ e # es2) = Inl err" if "k \<le> - L \<or> L < k"
  proof (cases "new_displacements orig_disp (es1 @ e # es2)")
    case (Inl err)
    then show ?thesis by blast
  next
    case (Inr out)
    from ok [OF Inr] that show ?thesis by auto
  qed
  with step ok show ?thesis by blast
qed

text \<open>
  With two original displacements the id 0 reads the last one, and the id
  \<open>-2\<close> makes the run fail.
\<close>

theorem new_displacements_index_wraparound_witness:
  "new_displacements [[1, 0, 0 :: int], [0, 2, 0]]
     [\<lparr>element = 1, orig = [0, 1, 1, 1, 1, 1], new = [10]\<rparr>] = Inr [(10, [0, 2, 0])] \<and>
   - int (length [[1, 0, 0 :: int], [0, 2, 0]]) < 0 \<and>
   map_of [(10 :: int, [0, 2, 0 :: int])] 10 = Some ([[1, 0, 0], [0, 2, 0]] ! nat (2 + 0 - 1)) \<and>
   assign [[1, 0, 0 :: int], [0, 2, 0]] [0, 1, 1, 1, 1, 1] [] (0, 10) = Inr [(10, [0, 2, 0])] \<and>
   (\<exists>err. new_displacements [[1, 0, 0 :: int], [0, 2, 0]]
      [\<lparr>element = 1, orig = [- 2, 1, 1, 1, 1, 1], new = [10]\<rparr>] = Inl err)"
proof -
  have run: "new_displacements [[1, 0, 0 :: int], [0, 2, 0]]
     ([] @ \<lparr>element = 1, orig = [0, 1, 1, 1, 1, 1], new = [10]\<rparr> # []) = Inr [(10, [0, 2, 0])]"
    by code_simp
  have a: "(\<forall>newdisp. (10 :: int) \<notin> fst ` set newdisp \<longrightarrow>
            assign [[1, 0, 0 :: int], [0, 2, 0]] [0, 1, 1, 1, 1, 1] newdisp (0, 10) =
              Inr (newdisp @ [(10, [0, 2, 0])])) \<and>
         (\<forall>out. new_displacements [[1, 0, 0 :: int], [0, 2, 0]]
                 ([] @ \<lparr>element = 1, orig = [0, 1, 1, 1, 1, 1], new = [10]\<rparr> # []) = Inr out \<longrightarrow>
            map_of out 10 = Some [0, 2, 0])"
    using new_displacements_index_wraparound [where ?es1.0 = "[]" and ?es2.0 = "[]" and n = 10 and x = 0 and m = 0 and k = 0
        and L = 2 and orig_disp = "[[1, 0, 0 :: int], [0, 2, 0]]"
        and e = "\<lparr>element = 1, orig = [0, 1, 1, 1, 1, 1], new = [10]\<rparr>"]
    by simp
  have b: "\<exists>err. new_displacements [[1, 0, 0 :: int], [0, 2, 0]]
      ([] @ \<lparr>element = 1, orig = [- 2, 1, 1, 1, 1, 1], new = [10]\<rparr> # []) = Inl err"
    using new_displacements_index_wraparound [where ?es1.0 = "[]" and ?es2.0 = "[]" and n = 10 and x = 0 and m = 0 and k = "- 2"
        and L = 2 and orig_disp = "[[1, 0, 0 :: int], [0, 2, 0]]"
        and e = "\<lparr>element = 1, orig = [- 2, 1, 1, 1, 1, 1], new = [10]\<rparr>"]
    by simp
  from a have "assign [[1, 0, 0 :: int], [0, 2, 0]] [0, 1, 1, 1, 1, 1] [] (0, 10) = Inr [(10, [0, 2, 0])]"
    by simp
  with run a b show ?thesis by simp
qed

text \<open>
  The claim as it was stated allows the id \<open>- len(orig)\<close>: with one
  original displacement and the id \<open>-1\<close> the lookup is \<open>orig[-2]\<close>, which
  raises although \<open>-1 - 1\<close> is below the length.
\<close>

theorem new_displacements_negative_length_raises:
  "- int (length [[1, 0, 0 :: int]]) \<le> - 1 \<and> (- 1 :: int) < 0 \<and>
   \<not> int (length [[1, 0, 0 :: int]]) \<le> - 1 - 1 \<and>
   new_displacements [[1, 0, 0 :: int]] [\<lparr>element = 1, orig = [- 1, 1, 1, 1, 1, 1], new = [10]\<rparr>]
     = Inl IndexError"
  by (simp add: new_displacements_def assign_def copied_def mapping_get_def mapping_def
      getitem_def enumerate_eq_zip)

subsection \<open>read_displacements\<close>

text \<open>
  Claim C5. Let \<open>d\<close> and \<open>e\<close> be the indices of the first stripped lines of
  \<open><base>.dat\<close> that contain \<open>displacements\<close> and \<open>energy\<close>, with \<open>d\<close>
  before \<open>e\<close>, and let every line from \<open>d + 2\<close> up to, not including,
  \<open>e - 1\<close> (which is \<open>(e + 2) - 3\<close>) have four tokens of which the last three
  convert. Then \<open>read_displacements\<close> returns one tuple for each of these lines,
  in their order: the conversions of the line's tokens without the first, three
  of them. The number of tuples is the number of lines of the block.
\<close>

theorem read_displacements_data_block:
  assumes "files w (base @ ''.dat'') = Some content"
    and "lines = map strip (readlines content)"
    and "d < length lines" and "contains ''displacements'' (lines ! d)"
    and "\<forall>j<d. \<not> contains ''displacements'' (lines ! j)"
    and "e < length lines" and "contains ''energy'' (lines ! e)"
    and "\<forall>j<e. \<not> contains ''energy'' (lines ! j)"
    and "d < e"
    and "\<forall>j. d + 2 \<le> j \<and> j < e - 1 \<longrightarrow>
           length (split (lines ! j)) = 4 \<and>
           (\<forall>t \<in> set (drop 1 (split (lines ! j))). py_float t \<noteq> None)"
  shows "\<exists>disp.
           read_displacements py_float base w =
             (Inr disp, w\<lparr>open_calls := open_calls w @ [(base @ ''.dat'', Reading)]\<rparr>) \<and>
           length disp = (e - 1) - (d + 2) \<and>
           (\<forall>k < length disp.
              disp ! k = map (\<lambda>t. the (py_float t)) (drop 1 (split (lines ! (d + 2 + k)))) \<and>
              length (disp ! k) = 3)"
proof -
  let ?row = "\<lambda>j. map (\<lambda>t. the (py_float t)) (drop 1 (split (lines ! j)))"
  let ?disp = "map ?row [d + 2..<e - 1]"
  have fe: "first_index (contains ''energy'') lines = Inr e"
    using assms(6-8) by (rule first_index_Inr)
  have fd: "first_index (contains ''displacements'') lines = Inr d"
    using assms(3-5) by (rule first_index_Inr)
  from assms(9) have "int e + 2 - 3 = int (e - 1)" by simp
  moreover have "int d + 2 = int (d + 2)" by simp
  moreover from assms(6) have "e - 1 \<le> length lines" by simp
  ultimately have sl: "slice lines (int d + 2) (int e + 2 - 3) = map (\<lambda>j. lines ! j) [d + 2..<e - 1]"
    by (simp only: slice_nat)
  have rows: "traverse (\<lambda>ln. traverse (convert py_float) (drop 1 (split ln)))
      (map (\<lambda>j. lines ! j) [d + 2..<e - 1]) =
      Inr (map (\<lambda>ln. map (\<lambda>t. the (py_float t)) (drop 1 (split ln))) (map (\<lambda>j. lines ! j) [d + 2..<e - 1]))"
    using assms(10) by (intro traverse_map ballI traverse_convert) auto
  have "displacements_of py_float lines = Inr ?disp"
    unfolding displacements_of_def Let_def
    by (simp only: fe fd sum.case sl rows) (simp add: comp_def)
  with assms(1,2) have run: "read_displacements py_float base w =
      (Inr ?disp, w\<lparr>open_calls := open_calls w @ [(base @ ''.dat'', Reading)]\<rparr>)"
    by (simp add: read_displacements_def open_read_def Let_def)
  have "length ?disp = (e - 1) - (d + 2)" by simp
  moreover have "\<forall>k < length ?disp. ?disp ! k = ?row (d + 2 + k) \<and> length (?disp ! k) = 3"
    using assms(10) by auto
  ultimately show ?thesis using run by blast
qed

text \<open>A results table of two nodes between its two markers.\<close>

theorem read_displacements_data_block_witness:
  "\<exists>disp.
     read_displacements (map_of [(''0'', 0 :: int), (''1'', 1), (''2'', 2)]) ''x''
       \<lparr>files = [''x.dat'' \<mapsto> concat (map (\<lambda>l. l @ [nl])
                  ['' displacements (vx,vy,vz)'', [], ''  1  1 0 2'', ''  2  0 2 1'', [],
                   '' internal energy''])],
        stdout = [], open_calls = []\<rparr> =
       (Inr disp,
        \<lparr>files = [''x.dat'' \<mapsto> concat (map (\<lambda>l. l @ [nl])
                  ['' displacements (vx,vy,vz)'', [], ''  1  1 0 2'', ''  2  0 2 1'', [],
                   '' internal energy''])],
         stdout = [], open_calls = [(''x.dat'', Reading)]\<rparr>) \<and>
     length disp = 2 \<and> disp ! 0 = [1, 0, 2] \<and> disp ! 1 = [0, 2, 1]"
proof -
  let ?pf = "map_of [(''0'', 0 :: int), (''1'', 1), (''2'', 2)]"
  let ?content = "concat (map (\<lambda>l. l @ [nl])
      ['' displacements (vx,vy,vz)'', [], ''  1  1 0 2'', ''  2  0 2 1'', [], '' internal energy''])"
  let ?lines = "[''displacements (vx,vy,vz)'', [], ''1  1 0 2'', ''2  0 2 1'', [], ''internal energy'']"
  let ?w = "\<lparr>files = [''x.dat'' \<mapsto> ?content], stdout = [], open_calls = []\<rparr>"
  have h1: "files ?w (''x'' @ ''.dat'') = Some ?content" by simp
  have h2: "?lines = map strip (readlines ?content)" by code_simp
  have h3: "0 < length ?lines" by simp
  have h4: "contains ''displacements'' (?lines ! 0)" by code_simp
  have h5: "\<forall>j<0. \<not> contains ''displacements'' (?lines ! j)" by simp
  have h6: "5 < length ?lines" by simp
  have h7: "contains ''energy'' (?lines ! 5)" by code_simp
  have n: "\<not> contains ''energy'' (?lines ! 0)" "\<not> contains ''energy'' (?lines ! 1)"
    "\<not> contains ''energy'' (?lines ! 2)" "\<not> contains ''energy'' (?lines ! 3)"
    "\<not> contains ''energy'' (?lines ! 4)"
    by code_simp+
  have h8: "\<forall>j<5. \<not> contains ''energy'' (?lines ! j)"
  proof (intro allI impI)
    fix j :: nat
    assume "j < 5"
    then have "j = 0 \<or> j = 1 \<or> j = 2 \<or> j = 3 \<or> j = 4" by arith
    with n show "\<not> contains ''energy'' (?lines ! j)" by auto
  qed
  have h9: "(0 :: nat) < 5" by simp
  have r2: "split (?lines ! 2) = [''1'', ''1'', ''0'', ''2'']" by code_simp
  have r3: "split (?lines ! 3) = [''2'', ''0'', ''2'', ''1'']" by code_simp
  have h10: "\<forall>j. 0 + 2 \<le> j \<and> j < 5 - 1 \<longrightarrow>
      length (split (?lines ! j)) = 4 \<and> (\<forall>t \<in> set (drop 1 (split (?lines ! j))). ?pf t \<noteq> None)"
  proof (intro allI impI)
    fix j :: nat
    assume "0 + 2 \<le> j \<and> j < 5 - 1"
    then have "j = 2 \<or> j = 3" by arith
    then show "length (split (?lines ! j)) = 4 \<and> (\<forall>t \<in> set (drop 1 (split (?lines ! j))). ?pf t \<noteq> None)"
      using r2 r3 by auto
  qed
  from read_displacements_data_block [OF h1 h2 h3 h4 h5 h6 h7 h8 h9 h10]
  obtain disp where run: "read_displacements ?pf ''x'' ?w =
      (Inr disp, ?w\<lparr>open_calls := open_calls ?w @ [(''x'' @ ''.dat'', Reading)]\<rparr>)"
    and len: "length disp = 5 - 1 - (0 + 2)"
    and rows: "\<forall>k<length disp. disp ! k = map (\<lambda>t. the (?pf t)) (drop 1 (split (?lines ! (0 + 2 + k))))
        \<and> length (disp ! k) = 3"
    by blast
  from len rows have "disp ! 0 = map (\<lambda>t. the (?pf t)) (drop 1 (split (?lines ! (0 + 2 + 0))))"
    and "disp ! 1 = map (\<lambda>t. the (?pf t)) (drop 1 (split (?lines ! (0 + 2 + 1))))"
    by simp_all
  with r2 r3 have "disp ! 0 = [1, 0, 2]" and "disp ! 1 = [0, 2, 1]" by simp_all
  with run len show ?thesis by simp
qed

subsection \<open>read_expansion\<close>

lemma expansion_at_valid:
  assumes "i + 4 < length lines" and "2 \<le> length (split (lines ! i))"
    and "py_int (split (lines ! i) ! 1) \<noteq> None"
    and "\<forall>t \<in> set (split (lines ! (i + 1)) @ split (lines ! (i + 3)) @ split (lines ! (i + 4))).
           py_int t \<noteq> None"
  shows "expansion_at py_int lines i =
           Inr \<lparr>element = the (py_int (split (lines ! i) ! 1)),
                orig = map (\<lambda>t. the (py_int t)) (split (lines ! (i + 1))),
                new = map (\<lambda>t. the (py_int t)) (split (lines ! (i + 3))) @
                      map (\<lambda>t. the (py_int t)) (split (lines ! (i + 4)))\<rparr>"
proof -
  have g0: "getitem lines (int i) = Inr (lines ! i)"
    using assms(1) getitem_nat [of lines i] by simp
  have g1: "getitem lines (int i + 1) = Inr (lines ! (i + 1))"
    using assms(1) getitem_offset [of i 1 lines] by simp
  have g3: "getitem lines (int i + 3) = Inr (lines ! (i + 3))"
    using assms(1) getitem_offset [of i 3 lines] by simp
  have g4: "getitem lines (int i + 4) = Inr (lines ! (i + 4))"
    using assms(1) getitem_offset [of i 4 lines] by simp
  have tok: "getitem (split (lines ! i)) 1 = Inr (split (lines ! i) ! 1)"
    using assms(2) getitem_nat [of "split (lines ! i)" 1] by simp
  have el: "convert py_int (split (lines ! i) ! 1) = Inr (the (py_int (split (lines ! i) ! 1)))"
    using assms(3) by (rule convert_Some)
  have t1: "traverse (convert py_int) (split (lines ! (i + 1))) =
      Inr (map (\<lambda>t. the (py_int t)) (split (lines ! (i + 1))))"
    using assms(4) by (intro traverse_convert) simp
  have t3: "traverse (convert py_int) (split (lines ! (i + 3))) =
      Inr (map (\<lambda>t. the (py_int t)) (split (lines ! (i + 3))))"
    using assms(4) by (intro traverse_convert) simp
  have t4: "traverse (convert py_int) (split (lines ! (i + 4))) =
      Inr (map (\<lambda>t. the (py_int t)) (split (lines ! (i + 4))))"
    using assms(4) by (intro traverse_convert) simp
  show ?thesis
    unfolding expansion_at_def
    by (simp only: g0 g1 g3 g4 tok el t1 t3 t4 sum.case)
qed

lemma expansion_at_skips_line:
  "expansion_at py_int (lines[i + 2 := ln]) i = expansion_at py_int lines i"
proof -
  have "getitem (lines[i + 2 := ln]) (int i) = getitem lines (int i)"
    and "getitem (lines[i + 2 := ln]) (int i + 1) = getitem lines (int i + 1)"
    and "getitem (lines[i + 2 := ln]) (int i + 3) = getitem lines (int i + 3)"
    and "getitem (lines[i + 2 := ln]) (int i + 4) = getitem lines (int i + 4)"
    by (simp_all add: getitem_update_other)
  then show ?thesis
    unfolding expansion_at_def by (simp only:)
qed

text \<open>
  Claim C6. Let \<open>marks\<close> be the indices, in ascending order, of the stripped
  lines of \<open><base>.12d\<close> that start with \<open>ELEMENT\<close>, and let the file be
  valid: after every marker \<open>i\<close> the lines up to \<open>i + 4\<close> exist, the marker
  line has a second token that converts, and the lines \<open>i + 1\<close>, \<open>i + 3\<close> and
  \<open>i + 4\<close> hold integers, 6 on the first and 15 on the other two together.
  Then \<open>read_expansion\<close> returns one record for each marker, in that order,
  with the element id from the second token of line \<open>i\<close>, \<open>orig\<close> from line
  \<open>i + 1\<close> and \<open>new\<close> from line \<open>i + 3\<close> followed by line \<open>i + 4\<close>. The
  record read at a marker stays the same whatever stands on line \<open>i + 2\<close>.
\<close>

theorem read_expansion_one_record_per_marker:
  assumes "files w (base @ ''.12d'') = Some content"
    and "lines = map strip (readlines content)"
    and "marks = filter (\<lambda>i. startswith (lines ! i) ''ELEMENT'') [0..<length lines]"
    and "\<forall>i \<in> set marks.
           i + 4 < length lines \<and> 2 \<le> length (split (lines ! i)) \<and>
           py_int (split (lines ! i) ! 1) \<noteq> None \<and>
           (\<forall>t \<in> set (split (lines ! (i + 1)) @ split (lines ! (i + 3)) @ split (lines ! (i + 4))).
              py_int t \<noteq> None) \<and>
           length (split (lines ! (i + 1))) = 6 \<and>
           length (split (lines ! (i + 3))) + length (split (lines ! (i + 4))) = 15"
  shows "\<exists>recs.
           read_expansion py_int base w =
             (Inr recs, w\<lparr>open_calls := open_calls w @ [(base @ ''.12d'', Reading)]\<rparr>) \<and>
           length recs = length marks \<and>
           (\<forall>k < length recs.
              element (recs ! k) = the (py_int (split (lines ! (marks ! k)) ! 1)) \<and>
              orig (recs ! k) = map (\<lambda>t. the (py_int t)) (split (lines ! (marks ! k + 1))) \<and>
              new (recs ! k) =
                map (\<lambda>t. the (py_int t)) (split (lines ! (marks ! k + 3))) @
                map (\<lambda>t. the (py_int t)) (split (lines ! (marks ! k + 4))) \<and>
              length (orig (recs ! k)) = 6 \<and> length (new (recs ! k)) = 15 \<and>
              (\<forall>ln. expansion_at py_int (lines[marks ! k + 2 := ln]) (marks ! k) = Inr (recs ! k)))"
proof -
  let ?rec = "\<lambda>i. \<lparr>element = the (py_int (split (lines ! i) ! 1)),
                orig = map (\<lambda>t. the (py_int t)) (split (lines ! (i + 1))),
                new = map (\<lambda>t. the (py_int t)) (split (lines ! (i + 3))) @
                      map (\<lambda>t. the (py_int t)) (split (lines ! (i + 4)))\<rparr>"
  have at: "\<forall>i \<in> set marks. expansion_at py_int lines i = Inr (?rec i)"
  proof
    fix i
    assume "i \<in> set marks"
    with assms(4) have "i + 4 < length lines" and "2 \<le> length (split (lines ! i))"
      and "py_int (split (lines ! i) ! 1) \<noteq> None"
      and "\<forall>t \<in> set (split (lines ! (i + 1)) @ split (lines ! (i + 3)) @ split (lines ! (i + 4))).
             py_int t \<noteq> None"
      by blast+
    then show "expansion_at py_int lines i = Inr (?rec i)"
      by (rule expansion_at_valid)
  qed
  have ix: "indices (\<lambda>ln. startswith ln ''ELEMENT'') lines = marks"
    by (simp add: indices_eq assms(3))
  have "expansions_of py_int lines = Inr (map ?rec marks)"
    unfolding expansions_of_def ix using at by (rule traverse_map)
  with assms(1,2) have run: "read_expansion py_int base w =
      (Inr (map ?rec marks), w\<lparr>open_calls := open_calls w @ [(base @ ''.12d'', Reading)]\<rparr>)"
    by (simp add: read_expansion_def open_read_def Let_def)
  have "\<forall>k < length (map ?rec marks).
      element (map ?rec marks ! k) = the (py_int (split (lines ! (marks ! k)) ! 1)) \<and>
      orig (map ?rec marks ! k) = map (\<lambda>t. the (py_int t)) (split (lines ! (marks ! k + 1))) \<and>
      new (map ?rec marks ! k) =
        map (\<lambda>t. the (py_int t)) (split (lines ! (marks ! k + 3))) @
        map (\<lambda>t. the (py_int t)) (split (lines ! (marks ! k + 4))) \<and>
      length (orig (map ?rec marks ! k)) = 6 \<and> length (new (map ?rec marks ! k)) = 15 \<and>
      (\<forall>ln. expansion_at py_int (lines[marks ! k + 2 := ln]) (marks ! k) = Inr (map ?rec marks ! k))"
  proof (intro allI impI)
    fix k
    assume "k < length (map ?rec marks)"
    then have k: "k < length marks" by simp
    then have m: "marks ! k \<in> set marks" by simp
    with assms(4) have "length (split (lines ! (marks ! k + 1))) = 6"
      and "length (split (lines ! (marks ! k + 3))) + length (split (lines ! (marks ! k + 4))) = 15"
      by blast+
    moreover from at m have "\<forall>ln. expansion_at py_int (lines[marks ! k + 2 := ln]) (marks ! k) =
        Inr (?rec (marks ! k))"
      by (simp only: expansion_at_skips_line) blast
    ultimately show "element (map ?rec marks ! k) = the (py_int (split (lines ! (marks ! k)) ! 1)) \<and>
      orig (map ?rec marks ! k) = map (\<lambda>t. the (py_int t)) (split (lines ! (marks ! k + 1))) \<and>
      new (map ?rec marks ! k) =
        map (\<lambda>t. the (py_int t)) (split (lines ! (marks ! k + 3))) @
        map (\<lambda>t. the (py_int t)) (split (lines ! (marks ! k + 4))) \<and>
      length (orig (map ?rec marks ! k)) = 6 \<and> length (new (map ?rec marks ! k)) = 15 \<and>
      (\<forall>ln. expansion_at py_int (lines[marks ! k + 2 := ln]) (marks ! k) = Inr (map ?rec marks ! k))"
      using k by simp
  qed
  moreover have "length (map ?rec marks) = length marks" by simp
  ultimately show ?thesis using run by blast
qed

text \<open>One block of five lines; its third line is not a list of integers.\<close>

theorem read_expansion_one_record_per_marker_witness:
  "\<exists>recs.
     read_expansion (map_of (map (\<lambda>n. (str_int n, n)) [1..24])) ''x''
       \<lparr>files = [''x.12d'' \<mapsto> concat (map (\<lambda>l. l @ [nl])
                  ['' ELEMENT 7 S6'', ''1 2 3 4 5 6'', ''not read'', ''10 11 12 13 14 15 16 17'',
                   ''18 19 20 21 22 23 24''])],
        stdout = [], open_calls = []\<rparr> =
       (Inr recs,
        \<lparr>files = [''x.12d'' \<mapsto> concat (map (\<lambda>l. l @ [nl])
                  ['' ELEMENT 7 S6'', ''1 2 3 4 5 6'', ''not read'', ''10 11 12 13 14 15 16 17'',
                   ''18 19 20 21 22 23 24''])],
         stdout = [], open_calls = [(''x.12d'', Reading)]\<rparr>) \<and>
     length recs = 1 \<and> element (recs ! 0) = 7 \<and> orig (recs ! 0) = [1, 2, 3, 4, 5, 6] \<and>
     new (recs ! 0) = [10, 11, 12, 13, 14, 15, 16, 17, 18, 19, 20, 21, 22, 23, 24]"
proof -
  let ?pi = "map_of (map (\<lambda>n. (str_int n, n)) [1..24])"
  let ?content = "concat (map (\<lambda>l. l @ [nl])
      ['' ELEMENT 7 S6'', ''1 2 3 4 5 6'', ''not read'', ''10 11 12 13 14 15 16 17'',
       ''18 19 20 21 22 23 24''])"
  let ?lines = "[''ELEMENT 7 S6'', ''1 2 3 4 5 6'', ''not read'', ''10 11 12 13 14 15 16 17'',
       ''18 19 20 21 22 23 24'']"
  let ?w = "\<lparr>files = [''x.12d'' \<mapsto> ?content], stdout = [], open_calls = []\<rparr>"
  have h1: "files ?w (''x'' @ ''.12d'') = Some ?content" by simp
  have h2: "?lines = map strip (readlines ?content)" by code_simp
  have h3: "[0] = filter (\<lambda>i. startswith (?lines ! i) ''ELEMENT'') [0..<length ?lines]" by code_simp
  have a: "2 \<le> length (split (?lines ! 0))" by code_simp
  have b: "the (?pi (split (?lines ! 0) ! 1)) = 7" "?pi (split (?lines ! 0) ! 1) \<noteq> None" by code_simp+
  have c: "list_all (\<lambda>t. ?pi t \<noteq> None)
      (split (?lines ! (0 + 1)) @ split (?lines ! (0 + 3)) @ split (?lines ! (0 + 4)))"
    by code_simp
  have d: "length (split (?lines ! (0 + 1))) = 6"
    "length (split (?lines ! (0 + 3))) + length (split (?lines ! (0 + 4))) = 15"
    by code_simp+
  have e: "map (\<lambda>t. the (?pi t)) (split (?lines ! (0 + 1))) = [1, 2, 3, 4, 5, 6]"
    "map (\<lambda>t. the (?pi t)) (split (?lines ! (0 + 3))) @ map (\<lambda>t. the (?pi t)) (split (?lines ! (0 + 4)))
       = [10, 11, 12, 13, 14, 15, 16, 17, 18, 19, 20, 21, 22, 23, 24]"
    by code_simp+
  have h4: "\<forall>i \<in> set [0].
           i + 4 < length ?lines \<and> 2 \<le> length (split (?lines ! i)) \<and>
           ?pi (split (?lines ! i) ! 1) \<noteq> None \<and>
           (\<forall>t \<in> set (split (?lines ! (i + 1)) @ split (?lines ! (i + 3)) @ split (?lines ! (i + 4))).
              ?pi t \<noteq> None) \<and>
           length (split (?lines ! (i + 1))) = 6 \<and>
           length (split (?lines ! (i + 3))) + length (split (?lines ! (i + 4))) = 15"
    using a b(2) c d unfolding list_all_iff by simp
  from read_expansion_one_record_per_marker [OF h1 h2 h3 h4]
  obtain recs where run: "read_expansion ?pi ''x'' ?w =
      (Inr recs, ?w\<lparr>open_calls := open_calls ?w @ [(''x'' @ ''.12d'', Reading)]\<rparr>)"
    and len: "length recs = length [0 :: nat]"
    and rows: "\<forall>k<length recs.
              element (recs ! k) = the (?pi (split (?lines ! ([0] ! k)) ! 1)) \<and>
              orig (recs ! k) = map (\<lambda>t. the (?pi t)) (split (?lines ! ([0] ! k + 1))) \<and>
              new (recs ! k) =
                map (\<lambda>t. the (?pi t)) (split (?lines ! ([0] ! k + 3))) @
                map (\<lambda>t. the (?pi t)) (split (?lines ! ([0] ! k + 4)))"
    by blast
  from len rows have "element (recs ! 0) = the (?pi (split (?lines ! 0) ! 1))"
    and "orig (recs ! 0) = map (\<lambda>t. the (?pi t)) (split (?lines ! (0 + 1)))"
    and "new (recs ! 0) = map (\<lambda>t. the (?pi t)) (split (?lines ! (0 + 3))) @
                map (\<lambda>t. the (?pi t)) (split (?lines ! (0 + 4)))"
    by simp_all
  with b(1) e have "element (recs ! 0) = 7" and "orig (recs ! 0) = [1, 2, 3, 4, 5, 6]"
    and "new (recs ! 0) = [10, 11, 12, 13, 14, 15, 16, 17, 18, 19, 20, 21, 22, 23, 24]"
    by simp_all
  with run len show ?thesis by simp
qed

subsection \<open>splice\<close>

lemma set_digits: "set (digits n) \<subseteq> set ''0123456789''"
proof (induction n rule: digits.induct)
  case (1 n)
  have "''0123456789'' ! (n mod 10) \<in> set ''0123456789''"
    by (rule nth_mem) simp
  moreover have "n < 10 \<Longrightarrow> ''0123456789'' ! n \<in> set ''0123456789''"
    by (rule nth_mem) simp
  ultimately show ?case
    using "1.IH" by (subst digits.simps) auto
qed

lemma nl_notin_str_int: "nl \<notin> set (str_int i)"
  using set_digits [of "nat i"] set_digits [of "nat (- i)"]
  by (auto simp: str_int_def nl_def)

lemma nl_notin_rjust: "nl \<notin> set s \<Longrightarrow> nl \<notin> set (rjust width s)"
  by (auto simp: rjust_def nl_def)

lemma record_line_three:
  "record_line fmt (node, [dx, dy, dz]) =
     Inr ('' -1'' @ rjust 10 (str_int node) @ fmt dx @ fmt dy @ fmt dz @ [nl])"
  by (simp add: record_line_def)

lemma length_three: "length xs = 3 \<Longrightarrow> \<exists>a b c. xs = [a, b, c]"
  by (cases xs; cases "tl xs"; cases "tl (tl xs)") auto

lemma record_line_Inr:
  assumes "length (snd p) = 3"
  shows "\<exists>r. record_line fmt p = Inr r"
proof -
  from length_three [OF assms] obtain a b c where "snd p = [a, b, c]" by blast
  then have "p = (fst p, [a, b, c])" by (cases p) simp
  then show ?thesis by (metis record_line_three)
qed

lemma record_line_terminated:
  assumes "record_line fmt p = Inr r" and "\<forall>v. nl \<notin> set (fmt v)"
  shows "terminated r"
proof -
  obtain node disp where p: "p = (node, disp)" by (cases p)
  with assms(1) obtain dx dy dz where d: "disp = [dx, dy, dz]"
    by (auto simp: record_line_def split: list.splits)
  with p assms(1) have r: "r = ('' -1'' @ rjust 10 (str_int node) @ fmt dx @ fmt dy @ fmt dz) @ [nl]"
    by (simp add: record_line_three)
  have "nl \<notin> set ('' -1'' @ rjust 10 (str_int node) @ fmt dx @ fmt dy @ fmt dz)"
    using assms(2) nl_notin_rjust [OF nl_notin_str_int, of 10 node] by (simp add: nl_def)
  then show ?thesis unfolding r by (rule terminated_snoc)
qed

lemma splice_run:
  assumes "files w (base @ ''.frd'') = Some content"
    and "i < length (readlines content)" and "contains ''DISP'' (readlines content ! i)"
    and "\<forall>j<i. \<not> contains ''DISP'' (readlines content ! j)"
    and "i + 5 < length (readlines content)"
  shows "splice fmt base new_disp w =
     (let w' = w\<lparr>open_calls := open_calls w @ [(base @ ''.frd'', Reading)]\<rparr>;
          lines = readlines content
      in if \<not> startswith (strip (lines ! (i + 5))) ''-3''
         then (Inl (ValueError (''wrong offset: '' @ str_int (int (i + 5)))), w')
         else (case traverse (record_line fmt) new_disp of
                 Inl err \<Rightarrow> (Inl err, w')
               | Inr spliced \<Rightarrow>
                   (Inr (), open_writelines (base @ ''-post.frd'')
                      (take (i + 5) lines @ spliced @ drop (i + 5) lines) w')))"
proof -
  have f: "first_index (contains ''DISP'') (readlines content) = Inr i"
    using assms(2-4) by (rule first_index_Inr)
  have g: "getitem (readlines content) (int (i + 5)) = Inr (readlines content ! (i + 5))"
    using assms(5) getitem_nat [of "readlines content" "i + 5"] by blast
  show ?thesis
    unfolding splice_def open_read_def Let_def
    by (simp only: assms(1) option.case prod.case sum.case f g)
qed

text \<open>
  Claim C3. Let \<open>i\<close> be the index of the first line of \<open><base>.frd\<close> that
  contains \<open>DISP\<close>, and let the line at \<open>i + 5\<close> exist and, stripped, not
  start with \<open>-3\<close>. Then \<open>splice\<close> raises the \<open>ValueError\<close> whose message
  ends in the decimal numeral of \<open>i + 5\<close>, and the world it leaves differs
  from the one it found only by the call that opened \<open><base>.frd\<close> for
  reading: no file is created or changed, and no file is opened for writing.
\<close>

theorem splice_wrong_offset_writes_nothing:
  assumes "files w (base @ ''.frd'') = Some content"
    and "lines = readlines content"
    and "i < length lines" and "contains ''DISP'' (lines ! i)"
    and "\<forall>j<i. \<not> contains ''DISP'' (lines ! j)"
    and "idx = i + 5" and "idx < length lines"
    and "\<not> startswith (strip (lines ! idx)) ''-3''"
  shows "splice fmt base new_disp w =
           (Inl (ValueError (''wrong offset: '' @ str_int (int idx))),
            w\<lparr>open_calls := open_calls w @ [(base @ ''.frd'', Reading)]\<rparr>)"
  using assms splice_run [of w base content i fmt new_disp]
  by (simp add: Let_def)

text \<open>A file whose line 5 is a record and not the \<open>-3\<close> line.\<close>

theorem splice_wrong_offset_writes_nothing_witness:
  "splice (\<lambda>v :: int. CHR '' '' # str_int v @ ''.00000E+00'') ''x'' [(7, [1, 0, 2])]
     \<lparr>files = [''x.frd'' \<mapsto> concat (map (\<lambda>l. l @ [nl]) [''DISP'', ''a'', ''b'', ''c'', ''d'', '' -1 9'', '' -3''])],
      stdout = [], open_calls = []\<rparr> =
   (Inl (ValueError ''wrong offset: 5''),
    \<lparr>files = [''x.frd'' \<mapsto> concat (map (\<lambda>l. l @ [nl]) [''DISP'', ''a'', ''b'', ''c'', ''d'', '' -1 9'', '' -3''])],
     stdout = [], open_calls = [(''x.frd'', Reading)]\<rparr>)"
proof -
  let ?content = "concat (map (\<lambda>l. l @ [nl]) [''DISP'', ''a'', ''b'', ''c'', ''d'', '' -1 9'', '' -3''])"
  let ?lines = "map (\<lambda>l. l @ [nl]) [''DISP'', ''a'', ''b'', ''c'', ''d'', '' -1 9'', '' -3'']"
  let ?w = "\<lparr>files = [''x.frd'' \<mapsto> ?content], stdout = [], open_calls = []\<rparr>"
  have h1: "files ?w (''x'' @ ''.frd'') = Some ?content" by simp
  have h2: "?lines = readlines ?content" by code_simp
  have h3: "0 < length ?lines" by simp
  have h4: "contains ''DISP'' (?lines ! 0)" by code_simp
  have h5: "\<forall>j<0. \<not> contains ''DISP'' (?lines ! j)" by simp
  have h6: "5 = (0 :: nat) + 5" by simp
  have h7: "5 < length ?lines" by simp
  have h8: "\<not> startswith (strip (?lines ! 5)) ''-3''" by code_simp
  have s: "str_int (int 5) = ''5''" by code_simp
  from splice_wrong_offset_writes_nothing [OF h1 h2 h3 h4 h5 h6 h7 h8] s show ?thesis by simp
qed

text \<open>
  Claim C4. Let the check of the anchor line pass, let every displacement have
  three components, and let the formatting of a number never produce a line
  feed. Then \<open>splice\<close> returns, and \<open><base>-post.frd\<close> holds the lines before
  the anchor index, the formatted records \<open>recs\<close> (one for each pair), and
  the lines from the anchor index on, each as it was read. Read back, the file
  has exactly these lines, as many as the original plus the number of pairs.
  \<open><base>.frd\<close> and every other file are as they were.
\<close>

theorem splice_inserts_before_anchor:
  assumes "files w (base @ ''.frd'') = Some content"
    and "lines = readlines content"
    and "i < length lines" and "contains ''DISP'' (lines ! i)"
    and "\<forall>j<i. \<not> contains ''DISP'' (lines ! j)"
    and "idx = i + 5" and "idx < length lines"
    and "startswith (strip (lines ! idx)) ''-3''"
    and "\<forall>p \<in> set new_disp. length (snd p) = 3"
    and "\<forall>v. nl \<notin> set (fmt v)"
  shows "\<exists>recs w'.
           splice fmt base new_disp w = (Inr (), w') \<and>
           list_all2 (\<lambda>p r. record_line fmt p = Inr r) new_disp recs \<and>
           files w' (base @ ''-post.frd'') = Some (concat (take idx lines @ recs @ drop idx lines)) \<and>
           readlines (concat (take idx lines @ recs @ drop idx lines)) =
             take idx lines @ recs @ drop idx lines \<and>
           length (take idx lines @ recs @ drop idx lines) = length lines + length new_disp \<and>
           files w' (base @ ''.frd'') = Some content \<and>
           (\<forall>name. name \<noteq> base @ ''-post.frd'' \<longrightarrow> files w' name = files w name) \<and>
           stdout w' = stdout w"
proof -
  from assms(9) have "\<forall>p \<in> set new_disp. \<exists>r. record_line fmt p = Inr r"
    by (simp add: record_line_Inr)
  then obtain recs where t: "traverse (record_line fmt) new_disp = Inr recs"
    using traverse_all_Inr by blast
  then have l2: "list_all2 (\<lambda>p r. record_line fmt p = Inr r) new_disp recs"
    by (rule traverse_Inr)
  then have len: "length recs = length new_disp"
    by (simp add: list_all2_lengthD)
  have fin: "\<forall>r \<in> set recs. terminated r"
  proof
    fix r
    assume "r \<in> set recs"
    then obtain k where "k < length recs" and "recs ! k = r"
      by (auto simp: in_set_conv_nth)
    with l2 have "record_line fmt (new_disp ! k) = Inr r"
      by (auto simp: list_all2_conv_all_nth)
    then show "terminated r" using assms(10) by (rule record_line_terminated)
  qed
  let ?total = "take idx lines @ recs @ drop idx lines"
  let ?w' = "open_writelines (base @ ''-post.frd'') ?total
      (w\<lparr>open_calls := open_calls w @ [(base @ ''.frd'', Reading)]\<rparr>)"
  have run: "splice fmt base new_disp w = (Inr (), ?w')"
    using assms(1-8) t splice_run [of w base content i fmt new_disp]
    by (simp add: Let_def)
  have rd: "readlines (concat ?total) = ?total"
    using readlines_insert [OF _ fin, of idx content] assms(2,7) by simp
  have ne: "base @ ''.frd'' \<noteq> base @ ''-post.frd''" by simp
  have "files ?w' (base @ ''-post.frd'') = Some (concat ?total)"
    by (simp add: open_writelines_def)
  moreover have "length ?total = length lines + length new_disp"
    using assms(7) len by simp
  moreover have "files ?w' (base @ ''.frd'') = Some content"
    using assms(1) ne by (simp add: open_writelines_def)
  moreover have "\<forall>name. name \<noteq> base @ ''-post.frd'' \<longrightarrow> files ?w' name = files w name"
    by (simp add: open_writelines_def)
  moreover have "stdout ?w' = stdout w"
    by (simp add: open_writelines_def)
  ultimately show ?thesis using run l2 rd by blast
qed

text \<open>
  A file with the \<open>-3\<close> line in its place and one pair to insert; the
  formatting used prints an integer as a one-digit mantissa.
\<close>

theorem splice_inserts_before_anchor_witness:
  "(\<exists>recs w'.
      splice (\<lambda>v :: int. CHR '' '' # str_int v @ ''.00000E+00'') ''x'' [(7, [1, 0, 2])]
        \<lparr>files = [''x.frd'' \<mapsto> concat (map (\<lambda>l. l @ [nl]) [''DISP'', ''a'', ''b'', ''c'', ''d'', '' -3'', ''e''])],
         stdout = [], open_calls = []\<rparr> = (Inr (), w') \<and>
      recs = ['' -1         7 1.00000E+00 0.00000E+00 2.00000E+00'' @ [nl]] \<and>
      files w' ''x-post.frd'' =
        Some (concat (map (\<lambda>l. l @ [nl]) [''DISP'', ''a'', ''b'', ''c'', ''d'']) @ concat recs @
              concat (map (\<lambda>l. l @ [nl]) ['' -3'', ''e''])) \<and>
      files w' ''x.frd'' =
        Some (concat (map (\<lambda>l. l @ [nl]) [''DISP'', ''a'', ''b'', ''c'', ''d'', '' -3'', ''e''])) \<and>
      files w' ''x.dat'' = None) \<and>
   length (readlines (concat (map (\<lambda>l. l @ [nl])
      [''DISP'', ''a'', ''b'', ''c'', ''d'', '' -1         7 1.00000E+00 0.00000E+00 2.00000E+00'', '' -3'', ''e'']))) = 7 + 1"
proof -
  let ?fmt = "\<lambda>v :: int. CHR '' '' # str_int v @ ''.00000E+00''"
  let ?content = "concat (map (\<lambda>l. l @ [nl]) [''DISP'', ''a'', ''b'', ''c'', ''d'', '' -3'', ''e''])"
  let ?lines = "map (\<lambda>l. l @ [nl]) [''DISP'', ''a'', ''b'', ''c'', ''d'', '' -3'', ''e'']"
  let ?w = "\<lparr>files = [''x.frd'' \<mapsto> ?content], stdout = [], open_calls = []\<rparr>"
  have h1: "files ?w (''x'' @ ''.frd'') = Some ?content" by simp
  have h2: "?lines = readlines ?content" by code_simp
  have h3: "0 < length ?lines" by simp
  have h4: "contains ''DISP'' (?lines ! 0)" by code_simp
  have h5: "\<forall>j<0. \<not> contains ''DISP'' (?lines ! j)" by simp
  have h6: "5 = (0 :: nat) + 5" by simp
  have h7: "5 < length ?lines" by simp
  have h8: "startswith (strip (?lines ! 5)) ''-3''" by code_simp
  have h9: "\<forall>p \<in> set [(7 :: int, [1, 0, 2 :: int])]. length (snd p) = 3" by simp
  have h10: "\<forall>v. nl \<notin> set (?fmt v)"
    using nl_notin_str_int by (simp add: nl_def)
  have r: "record_line ?fmt (7, [1, 0, 2]) =
      Inr ('' -1         7 1.00000E+00 0.00000E+00 2.00000E+00'' @ [nl])"
    by code_simp
  have n: "length (readlines (concat (map (\<lambda>l. l @ [nl])
      [''DISP'', ''a'', ''b'', ''c'', ''d'', '' -1         7 1.00000E+00 0.00000E+00 2.00000E+00'', '' -3'', ''e'']))) = 7 + 1"
    by code_simp
  from splice_inserts_before_anchor [OF h1 h2 h3 h4 h5 h6 h7 h8 h9 h10]
  obtain recs w' where
    "splice ?fmt ''x'' [(7, [1, 0, 2])] ?w = (Inr (), w')"
    "list_all2 (\<lambda>p r. record_line ?fmt p = Inr r) [(7, [1, 0, 2])] recs"
    "files w' (''x'' @ ''-post.frd'') = Some (concat (take 5 ?lines @ recs @ drop 5 ?lines))"
    "files w' (''x'' @ ''.frd'') = Some ?content"
    "\<forall>name. name \<noteq> ''x'' @ ''-post.frd'' \<longrightarrow> files w' name = files ?w name"
    by blast
  with r n show ?thesis
    by (auto simp: list_all2_Cons1)
qed





subsection \<open>main\<close>

text \<open>
  No exception of the four stages is a \<open>SystemExit\<close>: each of them ends the
  run with status 1.
\<close>

lemma convert_Inl: "convert conv tok = Inl err \<Longrightarrow> exit_status (Inl err) = 1"
  by (auto simp: convert_def exit_status_def split: option.splits)

lemma getitem_Inl_status: "getitem xs i = Inl err \<Longrightarrow> exit_status (Inl err) = 1"
  by (simp add: getitem_Inl_iff exit_status_def)

lemma first_index_Inl_status: "first_index p xs = Inl err \<Longrightarrow> exit_status (Inl err) = 1"
  by (simp add: first_index_Inl exit_status_def)

lemma traverse_Inl_status:
  "traverse f xs = Inl err \<Longrightarrow> (\<And>x e. f x = Inl e \<Longrightarrow> exit_status (Inl e) = 1) \<Longrightarrow>
   exit_status (Inl err) = 1"
  by (blast dest: traverse_Inl)

lemma open_read_Inl_status:
  "open_read name w = (Inl err, w') \<Longrightarrow> exit_status (Inl err) = 1"
  by (auto simp: open_read_def Let_def exit_status_def split: option.splits)

lemma displacements_of_Inl_status:
  "displacements_of py_float lines = Inl err \<Longrightarrow> exit_status (Inl err) = 1"
  unfolding displacements_of_def Let_def
  by (auto split: sum.splits
      dest!: first_index_Inl_status
      elim!: traverse_Inl_status [where err = err] traverse_Inl_status convert_Inl)

lemma read_displacements_Inl_status:
  "read_displacements py_float base w = (Inl err, w') \<Longrightarrow> exit_status (Inl err) = 1"
  by (auto simp: read_displacements_def split: prod.splits sum.splits
      dest: open_read_Inl_status displacements_of_Inl_status)

lemma expansion_at_Inl_status:
  "expansion_at py_int lines i = Inl err \<Longrightarrow> exit_status (Inl err) = 1"
  unfolding expansion_at_def
  by (auto split: sum.splits
      dest: getitem_Inl_status convert_Inl
      elim: traverse_Inl_status convert_Inl)

lemma read_expansion_Inl_status:
  "read_expansion py_int base w = (Inl err, w') \<Longrightarrow> exit_status (Inl err) = 1"
  by (auto simp: read_expansion_def expansions_of_def split: prod.splits sum.splits
      dest: open_read_Inl_status elim: traverse_Inl_status expansion_at_Inl_status)

lemma copied_Inl_status: "copied od org x = Inl err \<Longrightarrow> exit_status (Inl err) = 1"
  by (auto simp: copied_def mapping_get_def exit_status_def split: sum.splits option.splits
      dest: getitem_Inl_status)

lemma assign_Inl_status: "assign od org nd p = Inl err \<Longrightarrow> exit_status (Inl err) = 1"
  by (cases p) (auto simp: assign_def split: if_splits sum.splits dest: copied_Inl_status)

lemma slots_loop_Inl_status:
  "slots_loop od org nd ps = Inl err \<Longrightarrow> exit_status (Inl err) = 1"
  by (induction ps arbitrary: nd) (auto split: sum.splits dest: assign_Inl_status)

lemma expansion_loop_Inl_status:
  "expansion_loop od nd es = Inl err \<Longrightarrow> exit_status (Inl err) = 1"
  by (induction es arbitrary: nd) (auto split: sum.splits dest: slots_loop_Inl_status)

lemma new_displacements_Inl_status:
  "new_displacements od ex = Inl err \<Longrightarrow> exit_status (Inl err) = 1"
  unfolding new_displacements_def Let_def
  by (auto simp: newdisp_get_def exit_status_def split: sum.splits option.splits
      dest: expansion_loop_Inl_status dest!: traverse_Inl)

lemma record_line_Inl: "record_line fmt p = Inl err \<Longrightarrow> err = UnpackError"
  by (cases p) (auto simp: record_line_def split: list.splits)

lemma splice_Inl_status:
  "splice fmt base nd w = (Inl err, w') \<Longrightarrow> exit_status (Inl err) = 1"
  unfolding splice_def Let_def
  by (auto simp: exit_status_def split: prod.splits sum.splits if_splits
      dest: open_read_Inl_status first_index_Inl_status getitem_Inl_status
      dest!: traverse_Inl record_line_Inl)

text \<open>
  Claim C9. With fewer than two entries in \<open>sys.argv\<close>, \<open>main\<close> prints the
  docstring and a line feed and raises \<open>SystemExit(1)\<close>: the exit status is 1,
  no file is changed and \<open>open\<close> is not called. With a base name, \<open>main\<close>
  runs the four stages in order, each on the world the one before left: it
  ends with the exception and the world of the first stage that raises, and
  otherwise with the result and the world of \<open>splice\<close>. So the exit status is
  0 exactly when all four stages return, and it is 1, with an exception, in
  every other case.
\<close>

theorem main_usage_and_exit_status:
  "(length sys_argv < 2 \<longrightarrow>
      main py_float py_int fmt doc sys_argv w =
        (Inl (SystemExit 1), w\<lparr>stdout := stdout w @ doc @ [nl]\<rparr>) \<and>
      exit_status (fst (main py_float py_int fmt doc sys_argv w)) = 1 \<and>
      files (snd (main py_float py_int fmt doc sys_argv w)) = files w \<and>
      open_calls (snd (main py_float py_int fmt doc sys_argv w)) = open_calls w) \<and>
   (2 \<le> length sys_argv \<longrightarrow>
      (\<forall>err w1.
         read_displacements py_float (sys_argv ! 1) w = (Inl err, w1) \<longrightarrow>
         main py_float py_int fmt doc sys_argv w = (Inl err, w1)) \<and>
      (\<forall>orig_disp w1.
         read_displacements py_float (sys_argv ! 1) w = (Inr orig_disp, w1) \<longrightarrow>
         (\<forall>err w2.
            read_expansion py_int (sys_argv ! 1) w1 = (Inl err, w2) \<longrightarrow>
            main py_float py_int fmt doc sys_argv w = (Inl err, w2)) \<and>
         (\<forall>expansion w2.
            read_expansion py_int (sys_argv ! 1) w1 = (Inr expansion, w2) \<longrightarrow>
            (\<forall>err.
               new_displacements orig_disp expansion = Inl err \<longrightarrow>
               main py_float py_int fmt doc sys_argv w = (Inl err, w2)) \<and>
            (\<forall>new_disp.
               new_displacements orig_disp expansion = Inr new_disp \<longrightarrow>
               main py_float py_int fmt doc sys_argv w =
                 splice fmt (sys_argv ! 1) new_disp w2))) \<and>
      (exit_status (fst (main py_float py_int fmt doc sys_argv w)) = 0 \<longleftrightarrow>
         (\<exists>orig_disp w1 expansion w2 new_disp w3.
            read_displacements py_float (sys_argv ! 1) w = (Inr orig_disp, w1) \<and>
            read_expansion py_int (sys_argv ! 1) w1 = (Inr expansion, w2) \<and>
            new_displacements orig_disp expansion = Inr new_disp \<and>
            splice fmt (sys_argv ! 1) new_disp w2 = (Inr (), w3))) \<and>
      (exit_status (fst (main py_float py_int fmt doc sys_argv w)) \<noteq> 0 \<longrightarrow>
         exit_status (fst (main py_float py_int fmt doc sys_argv w)) = 1 \<and>
         (\<exists>err. fst (main py_float py_int fmt doc sys_argv w) = Inl err)))"
proof (intro conjI impI)
  assume "length sys_argv < 2"
  then show "main py_float py_int fmt doc sys_argv w =
      (Inl (SystemExit 1), w\<lparr>stdout := stdout w @ doc @ [nl]\<rparr>)"
    and "exit_status (fst (main py_float py_int fmt doc sys_argv w)) = 1"
    and "files (snd (main py_float py_int fmt doc sys_argv w)) = files w"
    and "open_calls (snd (main py_float py_int fmt doc sys_argv w)) = open_calls w"
    by (simp_all add: main_def exit_status_def)
next
  assume len: "2 \<le> length sys_argv"
  then show "\<forall>err w1.
      read_displacements py_float (sys_argv ! 1) w = (Inl err, w1) \<longrightarrow>
      main py_float py_int fmt doc sys_argv w = (Inl err, w1)"
    by (simp add: main_def)
next
  assume len: "2 \<le> length sys_argv"
  then show "\<forall>orig_disp w1.
         read_displacements py_float (sys_argv ! 1) w = (Inr orig_disp, w1) \<longrightarrow>
         (\<forall>err w2.
            read_expansion py_int (sys_argv ! 1) w1 = (Inl err, w2) \<longrightarrow>
            main py_float py_int fmt doc sys_argv w = (Inl err, w2)) \<and>
         (\<forall>expansion w2.
            read_expansion py_int (sys_argv ! 1) w1 = (Inr expansion, w2) \<longrightarrow>
            (\<forall>err.
               new_displacements orig_disp expansion = Inl err \<longrightarrow>
               main py_float py_int fmt doc sys_argv w = (Inl err, w2)) \<and>
            (\<forall>new_disp.
               new_displacements orig_disp expansion = Inr new_disp \<longrightarrow>
               main py_float py_int fmt doc sys_argv w =
                 splice fmt (sys_argv ! 1) new_disp w2))"
    by (simp add: main_def)
next
  assume len: "2 \<le> length sys_argv"
  let ?m = "main py_float py_int fmt doc sys_argv w"
  let ?b = "sys_argv ! 1"
  have cases: "(\<exists>err. fst ?m = Inl err \<and> exit_status (Inl err) = 1 \<and>
        \<not> (\<exists>orig_disp w1 expansion w2 new_disp w3.
            read_displacements py_float ?b w = (Inr orig_disp, w1) \<and>
            read_expansion py_int ?b w1 = (Inr expansion, w2) \<and>
            new_displacements orig_disp expansion = Inr new_disp \<and>
            splice fmt ?b new_disp w2 = (Inr (), w3))) \<or>
      (fst ?m = Inr () \<and>
        (\<exists>orig_disp w1 expansion w2 new_disp w3.
            read_displacements py_float ?b w = (Inr orig_disp, w1) \<and>
            read_expansion py_int ?b w1 = (Inr expansion, w2) \<and>
            new_displacements orig_disp expansion = Inr new_disp \<and>
            splice fmt ?b new_disp w2 = (Inr (), w3)))"
  proof -
    obtain r1 w1 where s1: "read_displacements py_float ?b w = (r1, w1)"
      by (cases "read_displacements py_float ?b w")
    show ?thesis
    proof (cases r1)
      case (Inl err)
      with s1 len have "?m = (Inl err, w1)" by (simp add: main_def)
      moreover from s1 Inl have "exit_status (Inl err) = 1"
        by (auto dest: read_displacements_Inl_status)
      ultimately show ?thesis using s1 Inl by auto
    next
      case d: (Inr orig_disp)
      obtain r2 w2 where s2: "read_expansion py_int ?b w1 = (r2, w2)"
        by (cases "read_expansion py_int ?b w1")
      show ?thesis
      proof (cases r2)
        case (Inl err)
        with s1 d s2 len have "?m = (Inl err, w2)" by (simp add: main_def)
        moreover from s2 Inl have "exit_status (Inl err) = 1"
          by (auto dest: read_expansion_Inl_status)
        ultimately show ?thesis using s1 d s2 Inl by auto
      next
        case x: (Inr expansion)
        show ?thesis
        proof (cases "new_displacements orig_disp expansion")
          case (Inl err)
          with s1 d s2 x len have "?m = (Inl err, w2)" by (simp add: main_def)
          moreover from Inl have "exit_status (Inl err) = 1"
            by (rule new_displacements_Inl_status)
          ultimately show ?thesis using s1 d s2 x Inl by auto
        next
          case n: (Inr new_disp)
          obtain r4 w3 where s4: "splice fmt ?b new_disp w2 = (r4, w3)"
            by (cases "splice fmt ?b new_disp w2")
          from s1 d s2 x n s4 len have m: "?m = (r4, w3)" by (simp add: main_def)
          show ?thesis
          proof (cases r4)
            case (Inl err)
            with s4 have "exit_status (Inl err) = 1"
              by (auto dest: splice_Inl_status)
            with m Inl s1 d s2 x n s4 show ?thesis by auto
          next
            case (Inr u)
            with s1 d s2 x n s4 m show ?thesis by auto
          qed
        qed
      qed
    qed
  qed
  from cases show "exit_status (fst ?m) = 0 \<longleftrightarrow>
      (\<exists>orig_disp w1 expansion w2 new_disp w3.
         read_displacements py_float ?b w = (Inr orig_disp, w1) \<and>
         read_expansion py_int ?b w1 = (Inr expansion, w2) \<and>
         new_displacements orig_disp expansion = Inr new_disp \<and>
         splice fmt ?b new_disp w2 = (Inr (), w3))"
    by (auto simp: exit_status_def)
  assume "exit_status (fst ?m) \<noteq> 0"
  with cases show "exit_status (fst ?m) = 1"
    by (auto simp: exit_status_def)
  from cases \<open>exit_status (fst ?m) \<noteq> 0\<close> show "\<exists>err. fst ?m = Inl err"
    by (auto simp: exit_status_def)
qed

text \<open>
  A call without a base name, and a call on three small files that runs all
  four stages, returns and has written the output file.
\<close>

theorem main_usage_and_exit_status_witness:
  "main (map_of [(''0'', 0 :: int), (''1'', 1), (''2'', 2)])
        (map_of [(''1'', 1), (''7'', 7), (''10'', 10), (''11'', 11), (''12'', 12)])
        (\<lambda>v. CHR '' '' # str_int v @ ''.00000E+00'') ''Usage: python3 post.py <basename>''
        [''post.py'']
        \<lparr>files = Map.empty, stdout = [], open_calls = []\<rparr> =
     (Inl (SystemExit 1),
      \<lparr>files = Map.empty, stdout = ''Usage: python3 post.py <basename>'' @ [nl], open_calls = []\<rparr>) \<and>
   (\<exists>orig_disp w1 expansion w2 new_disp w3.
      read_displacements (map_of [(''0'', 0 :: int), (''1'', 1), (''2'', 2)]) ''x''
        \<lparr>files =
           [''x.dat'' \<mapsto> concat (map (\<lambda>l. l @ [nl]) [''displacements'', [], ''1 1 0 2'', [], ''energy'']),
            ''x.12d'' \<mapsto> concat (map (\<lambda>l. l @ [nl]) [''ELEMENT 7'', ''1 1 1 1 1 1'', [], ''10 11'', ''12'']),
            ''x.frd'' \<mapsto> concat (map (\<lambda>l. l @ [nl]) [''DISP'', ''a'', ''b'', ''c'', ''d'', '' -3''])],
         stdout = [], open_calls = []\<rparr> = (Inr orig_disp, w1) \<and>
      read_expansion (map_of [(''1'', 1), (''7'', 7), (''10'', 10), (''11'', 11), (''12'', 12)]) ''x'' w1 =
        (Inr expansion, w2) \<and>
      new_displacements orig_disp expansion = Inr new_disp \<and>
      splice (\<lambda>v. CHR '' '' # str_int v @ ''.00000E+00'') ''x'' new_disp w2 = (Inr (), w3) \<and>
      main (map_of [(''0'', 0 :: int), (''1'', 1), (''2'', 2)])
        (map_of [(''1'', 1), (''7'', 7), (''10'', 10), (''11'', 11), (''12'', 12)])
        (\<lambda>v. CHR '' '' # str_int v @ ''.00000E+00'') ''Usage: python3 post.py <basename>''
        [''post.py'', ''x'']
        \<lparr>files =
           [''x.dat'' \<mapsto> concat (map (\<lambda>l. l @ [nl]) [''displacements'', [], ''1 1 0 2'', [], ''energy'']),
            ''x.12d'' \<mapsto> concat (map (\<lambda>l. l @ [nl]) [''ELEMENT 7'', ''1 1 1 1 1 1'', [], ''10 11'', ''12'']),
            ''x.frd'' \<mapsto> concat (map (\<lambda>l. l @ [nl]) [''DISP'', ''a'', ''b'', ''c'', ''d'', '' -3''])],
         stdout = [], open_calls = []\<rparr> = (Inr (), w3) \<and>
      files w3 ''x-post.frd'' =
        Some (concat (map (\<lambda>l. l @ [nl])
          [''DISP'', ''a'', ''b'', ''c'', ''d'',
           '' -1        10 1.00000E+00 0.00000E+00 2.00000E+00'',
           '' -1        11 1.00000E+00 0.00000E+00 2.00000E+00'',
           '' -1        12 1.00000E+00 0.00000E+00 2.00000E+00'', '' -3''])))"
proof -
  let ?pf = "map_of [(''0'', 0 :: int), (''1'', 1), (''2'', 2)]"
  let ?pi = "map_of [(''1'', 1 :: int), (''7'', 7), (''10'', 10), (''11'', 11), (''12'', 12)]"
  let ?fmt = "\<lambda>v :: int. CHR '' '' # str_int v @ ''.00000E+00''"
  let ?doc = "''Usage: python3 post.py <basename>''"
  let ?none = "\<lparr>files = Map.empty, stdout = [], open_calls = []\<rparr>"
  let ?w = "\<lparr>files =
           [''x.dat'' \<mapsto> concat (map (\<lambda>l. l @ [nl]) [''displacements'', [], ''1 1 0 2'', [], ''energy'']),
            ''x.12d'' \<mapsto> concat (map (\<lambda>l. l @ [nl]) [''ELEMENT 7'', ''1 1 1 1 1 1'', [], ''10 11'', ''12'']),
            ''x.frd'' \<mapsto> concat (map (\<lambda>l. l @ [nl]) [''DISP'', ''a'', ''b'', ''c'', ''d'', '' -3''])],
         stdout = [], open_calls = []\<rparr>"
  let ?m = "main ?pf ?pi ?fmt ?doc [''post.py'', ''x''] ?w"
  have usage: "main ?pf ?pi ?fmt ?doc [''post.py''] ?none =
      (Inl (SystemExit 1), ?none\<lparr>stdout := stdout ?none @ ?doc @ [nl]\<rparr>)"
    using main_usage_and_exit_status [of "[''post.py'']" ?pf ?pi ?fmt ?doc ?none] by simp
  have zero: "exit_status (fst ?m) = 0"
    by code_simp
  have out: "files (snd ?m) ''x-post.frd'' =
      Some (concat (map (\<lambda>l. l @ [nl])
          [''DISP'', ''a'', ''b'', ''c'', ''d'',
           '' -1        10 1.00000E+00 0.00000E+00 2.00000E+00'',
           '' -1        11 1.00000E+00 0.00000E+00 2.00000E+00'',
           '' -1        12 1.00000E+00 0.00000E+00 2.00000E+00'', '' -3'']))"
    by code_simp
  note inst = main_usage_and_exit_status [of "[''post.py'', ''x'']" ?pf ?pi ?fmt ?doc ?w]
  from zero inst
  obtain orig_disp w1 expansion w2 new_disp w3 where
    s1: "read_displacements ?pf ''x'' ?w = (Inr orig_disp, w1)" and
    s2: "read_expansion ?pi ''x'' w1 = (Inr expansion, w2)" and
    s3: "new_displacements orig_disp expansion = Inr new_disp" and
    s4: "splice ?fmt ''x'' new_disp w2 = (Inr (), w3)"
    by auto
  from inst s1 s2 s3 have "?m = splice ?fmt ''x'' new_disp w2"
    by simp
  with s4 have m: "?m = (Inr (), w3)" by simp
  with out have "files w3 ''x-post.frd'' =
      Some (concat (map (\<lambda>l. l @ [nl])
          [''DISP'', ''a'', ''b'', ''c'', ''d'',
           '' -1        10 1.00000E+00 0.00000E+00 2.00000E+00'',
           '' -1        11 1.00000E+00 0.00000E+00 2.00000E+00'',
           '' -1        12 1.00000E+00 0.00000E+00 2.00000E+00'', '' -3'']))"
    by simp
  with usage s1 s2 s3 s4 m show ?thesis by auto
qed

end
